theory Spec2Isabelle
  imports Main
begin

section \<open>Python values used by the program\<close>

text \<open>
  A Python \<^verbatim>\<open>dict\<close> keeps its keys in insertion order and holds each key once.  It
  is modelled as an association list; \<open>wf_dict\<close> is the invariant that every real
  \<^verbatim>\<open>dict\<close> satisfies.
\<close>

type_synonym ('k, 'v) dict = "('k \<times> 'v) list"

definition keys :: "('k, 'v) dict \<Rightarrow> 'k list" where
  "keys d = map fst d"

definition values_of :: "('k, 'v) dict \<Rightarrow> 'v list" where
  "values_of d = map snd d"

definition wf_dict :: "('k, 'v) dict \<Rightarrow> bool" where
  "wf_dict d = distinct (keys d)"

text \<open>\<^verbatim>\<open>d.get(k)\<close>: \<open>None\<close> when the key is absent.\<close>

definition dict_get :: "('k, 'v) dict \<Rightarrow> 'k \<Rightarrow> 'v option" where
  "dict_get d k = map_of d k"

text \<open>\<^verbatim>\<open>d[k] = v\<close>: an existing key keeps its position, a new key goes last.\<close>

fun dict_set :: "('k, 'v) dict \<Rightarrow> 'k \<Rightarrow> 'v \<Rightarrow> ('k, 'v) dict" where
  "dict_set [] k v = [(k, v)]"
| "dict_set ((k', v') # d) k v =
     (if k' = k then (k', v) # d else (k', v') # dict_set d k v)"

text \<open>\<^verbatim>\<open>del d[k]\<close> for a key that is present.\<close>

definition dict_del :: "('k, 'v) dict \<Rightarrow> 'k \<Rightarrow> ('k, 'v) dict" where
  "dict_del d k = filter (\<lambda>kv. fst kv \<noteq> k) d"

text \<open>Truthiness of an \<^verbatim>\<open>Optional[bool]\<close> and of an \<^verbatim>\<open>Optional[str]\<close>.\<close>

fun truthy :: "bool option \<Rightarrow> bool" where
  "truthy None = False"
| "truthy (Some b) = b"

fun truthy_str :: "string option \<Rightarrow> bool" where
  "truthy_str None = False"
| "truthy_str (Some s) = (s \<noteq> [])"

section \<open>Pure POSIX paths (\<^verbatim>\<open>pathlib\<close>)\<close>

text \<open>
  A parsed path is its root (\<^verbatim>\<open>''\<close>, \<^verbatim>\<open>'/'\<close> or \<^verbatim>\<open>'//'\<close>) and its components.
  \<open>Path_of\<close> is \<^verbatim>\<open>Path(s)\<close> for a string: \<^verbatim>\<open>posixpath.splitroot\<close> followed by
  \<^verbatim>\<open>[x for x in rel.split('/') if x and x != '.']\<close>.
\<close>

datatype anchor = Rel | Root1 | Root2

datatype path = Path (root_of: anchor) (tail_of: "string list")

fun split_sep :: "string \<Rightarrow> string list" where
  "split_sep [] = [[]]"
| "split_sep (c # cs) =
     (if c = CHR ''/'' then [] # split_sep cs
      else (case split_sep cs of [] \<Rightarrow> [[c]] | w # ws \<Rightarrow> (c # w) # ws))"

fun join_sep :: "string list \<Rightarrow> string" where
  "join_sep [] = []"
| "join_sep [x] = x"
| "join_sep (x # y # ys) = x @ CHR ''/'' # join_sep (y # ys)"

definition splitroot :: "string \<Rightarrow> anchor \<times> string" where
  "splitroot p =
     (if take 1 p \<noteq> ''/'' then (Rel, p)
      else if take 1 (drop 1 p) \<noteq> ''/'' \<or> take 1 (drop 2 p) = ''/'' then (Root1, drop 1 p)
      else (Root2, drop 2 p))"

definition Path_of :: "string \<Rightarrow> path" where
  "Path_of s =
     (case splitroot s of
        (r, rel) \<Rightarrow> Path r (filter (\<lambda>x. x \<noteq> [] \<and> x \<noteq> ''.'') (split_sep rel)))"

fun anchor_str :: "anchor \<Rightarrow> string" where
  "anchor_str Rel = []"
| "anchor_str Root1 = ''/''"
| "anchor_str Root2 = ''//''"

text \<open>\<^verbatim>\<open>str(p)\<close>: the empty relative path prints as a dot.\<close>

definition str_of :: "path \<Rightarrow> string" where
  "str_of p =
     (let s = anchor_str (root_of p) @ join_sep (tail_of p) in if s = [] then ''.'' else s)"

text \<open>
  \<^verbatim>\<open>p.relative_to(q)\<close> succeeds exactly when \<open>q\<close> is \<open>p\<close> or one of its parents: same
  root, and the components of \<open>q\<close> are a prefix of those of \<open>p\<close>.  Otherwise it raises
  \<^verbatim>\<open>ValueError\<close>.
\<close>

definition is_relative_to :: "path \<Rightarrow> path \<Rightarrow> bool" where
  "is_relative_to p q =
     (root_of q = root_of p \<and> take (length (tail_of q)) (tail_of p) = tail_of q)"

text \<open>\<^verbatim>\<open>p / s\<close>: a right operand that has a root replaces the left one.\<close>

definition joinpath :: "path \<Rightarrow> string \<Rightarrow> path" where
  "joinpath p s =
     (case Path_of s of
        Path Rel t \<Rightarrow> Path (root_of p) (tail_of p @ t)
      | Path Root1 t \<Rightarrow> Path Root1 t
      | Path Root2 t \<Rightarrow> Path Root2 t)"

definition is_absolute :: "path \<Rightarrow> bool" where
  "is_absolute p = (root_of p \<noteq> Rel)"

section \<open>Exceptions and exits\<close>

datatype exn =
    FileNotFoundError
  | ValueError
  | IndexError
  | KeyError
  | KeyboardInterrupt

section \<open>\<^verbatim>\<open>config.py\<close>\<close>

text \<open>
  \<^verbatim>\<open>rebase_path(new_root, subdir)\<close> for a \<^verbatim>\<open>Path\<close> root and a string
  \<open>subdir\<close>.  \<^verbatim>\<open>subdir[0]\<close> raises \<^verbatim>\<open>IndexError\<close> on an empty string.
\<close>

definition rebase_path :: "path \<Rightarrow> string \<Rightarrow> exn + path" where
  "rebase_path new_root subdir =
     (let sp = Path_of subdir in
      if is_relative_to sp new_root then Inr sp
      else (case str_of sp of
              [] \<Rightarrow> Inl IndexError
            | c # cs \<Rightarrow>
                (let rootless_path = (if c = CHR ''/'' then cs else c # cs)
                 in Inr (joinpath new_root rootless_path))))"

record Action =
  name :: string
  module_name' :: string
  cmd :: string
  args :: "bool option"
  watch_cmd :: "string option"
  work_dir :: path
  bg :: "bool option"

record Module =
  m_name :: string
  m_work_dir :: path
  m_actions :: "(string, Action) dict"

record BPMConfig =
  modules :: "(string, Module) dict"

text \<open>
  \<^verbatim>\<open>BPMConfig.all_actions\<close>.  The body of the inner loop: create the entry when
  \<^verbatim>\<open>cmds.get(c_name)\<close> is falsy (absent or empty), then append.  The
  \<^verbatim>\<open>KeyError\<close> of \<^verbatim>\<open>cmds[c_name]\<close> cannot occur, the key has just been set.
\<close>

definition add_action :: "(string, Action list) dict \<Rightarrow> string \<times> Action \<Rightarrow> (string, Action list) dict" where
  "add_action cmds e =
     (case e of (c_name, c_data) \<Rightarrow>
        (let cmds1 = (case dict_get cmds c_name of
                        None \<Rightarrow> dict_set cmds c_name []
                      | Some l \<Rightarrow> if l = [] then dict_set cmds c_name [] else cmds)
         in case dict_get cmds1 c_name of
              None \<Rightarrow> cmds1
            | Some l \<Rightarrow> dict_set cmds1 c_name (l @ [c_data])))"

definition add_module :: "(string, Action list) dict \<Rightarrow> Module \<Rightarrow> (string, Action list) dict" where
  "add_module cmds m = foldl add_action cmds (m_actions m)"

definition all_actions :: "BPMConfig \<Rightarrow> (string, Action list) dict" where
  "all_actions config = foldl add_module [] (values_of (modules config))"

text \<open>\<^verbatim>\<open>BPMConfig.action_groups\<close>: the entries with \<^verbatim>\<open>len(d) > 1\<close>.\<close>

definition action_groups :: "BPMConfig \<Rightarrow> (string, Action list) dict" where
  "action_groups config = filter (\<lambda>nd. length (snd nd) > 1) (all_actions config)"

text \<open>
  The specification's reading of the flat mapping: the actions defined under a name,
  module by module in declaration order.
\<close>

definition defining_modules :: "BPMConfig \<Rightarrow> string \<Rightarrow> Module list" where
  "defining_modules config n =
     filter (\<lambda>m. n \<in> set (keys (m_actions m))) (values_of (modules config))"

definition actions_named :: "BPMConfig \<Rightarrow> string \<Rightarrow> Action list" where
  "actions_named config n =
     concat (map (\<lambda>m. case dict_get (m_actions m) n of None \<Rightarrow> [] | Some a \<Rightarrow> [a])
                 (values_of (modules config)))"

definition wf_config :: "BPMConfig \<Rightarrow> bool" where
  "wf_config config =
     (wf_dict (modules config) \<and> list_all (\<lambda>m. wf_dict (m_actions m)) (values_of (modules config)))"

definition module_entry :: "string \<Rightarrow> Module \<Rightarrow> Action list" where
  "module_entry n m = (case dict_get (m_actions m) n of None \<Rightarrow> [] | Some a \<Rightarrow> [a])"

text \<open>Auxiliary notions for reasoning about the loop that fills \<^verbatim>\<open>cmds\<close>.\<close>

definition lookup_list :: "('k, 'a list) dict \<Rightarrow> 'k \<Rightarrow> 'a list" where
  "lookup_list d k = (case dict_get d k of None \<Rightarrow> [] | Some l \<Rightarrow> l)"

definition no_empty :: "('k, 'a list) dict \<Rightarrow> bool" where
  "no_empty d = (\<forall>k. dict_get d k \<noteq> Some [])"

subsection \<open>Loading: the validators of \<^verbatim>\<open>Module\<close> and \<^verbatim>\<open>BPMConfig\<close>\<close>

text \<open>
  The raw data of the configuration file.  A field with a default holds the value after
  defaulting (\<^verbatim>\<open>args\<close> and \<^verbatim>\<open>bg\<close> default to \<^verbatim>\<open>False\<close>); \<open>ra_work_dir\<close> is
  \<^verbatim>\<open>a.get("work_dir")\<close>.
\<close>

record raw_action =
  ra_cmd :: string
  ra_args :: "bool option"
  ra_watch_cmd :: "string option"
  ra_work_dir :: "string option"
  ra_bg :: "bool option"

record raw_module =
  rm_work_dir :: string
  rm_actions :: "(string, raw_action) dict"

text \<open>
  What the loader reads from outside: the stripped output of
  \<^verbatim>\<open>git rev-parse --show-toplevel\<close> (\<open>None\<close> when its return code is positive) and
  the file system's \<^verbatim>\<open>Path.exists\<close>.
\<close>

record env =
  git_toplevel :: "string option"
  path_exists :: "path \<Rightarrow> bool"

definition get_git_repo_root :: "env \<Rightarrow> exn + path" where
  "get_git_repo_root e =
     (case git_toplevel e of None \<Rightarrow> Inl FileNotFoundError | Some s \<Rightarrow> Inr (Path_of s))"

text \<open>
  The two \<^verbatim>\<open>mode="before"\<close> validators of \<^verbatim>\<open>Module\<close>.  Pydantic wraps each
  validator around the ones declared before it, so \<^verbatim>\<open>rebase_workdir_onto_git_repo_root\<close>
  runs first and \<^verbatim>\<open>set_additional_action_fields\<close> sees the rebased string.
\<close>

definition rebase_workdir_onto_git_repo_root :: "env \<Rightarrow> raw_module \<Rightarrow> exn + raw_module" where
  "rebase_workdir_onto_git_repo_root e data =
     (case get_git_repo_root e of
        Inl x \<Rightarrow> Inl x
      | Inr root \<Rightarrow>
          (case rebase_path root (rm_work_dir data) of
             Inl x \<Rightarrow> Inl x
           | Inr p \<Rightarrow> Inr (data\<lparr>rm_work_dir := str_of p\<rparr>)))"

text \<open>
  One round of the loop of \<^verbatim>\<open>set_additional_action_fields\<close>, together with the
  construction of the \<^verbatim>\<open>Action\<close> from the prepared fields (a string in a
  \<^verbatim>\<open>Path\<close> field is parsed).
\<close>

definition prepare_action :: "path \<Rightarrow> string \<Rightarrow> string \<Rightarrow> string \<times> raw_action \<Rightarrow> exn + string \<times> Action" where
  "prepare_action root mname mod_wd ka =
     (case ka of (k, a) \<Rightarrow>
        (case (if truthy_str (ra_work_dir a) then
                 (case ra_work_dir a of None \<Rightarrow> Inr (Path_of mod_wd) | Some w \<Rightarrow> rebase_path root w)
               else Inr (Path_of mod_wd)) of
           Inl x \<Rightarrow> Inl x
         | Inr wd \<Rightarrow>
             Inr (k, \<lparr>name = k, module_name' = mname, cmd = ra_cmd a, args = ra_args a,
                      watch_cmd = ra_watch_cmd a, work_dir = wd, bg = ra_bg a\<rparr>)))"

fun prepare_actions :: "path \<Rightarrow> string \<Rightarrow> string \<Rightarrow> (string, raw_action) dict \<Rightarrow> exn + (string, Action) dict" where
  "prepare_actions root mname mod_wd [] = Inr []"
| "prepare_actions root mname mod_wd (ka # rest) =
     (case prepare_action root mname mod_wd ka of
        Inl x \<Rightarrow> Inl x
      | Inr e \<Rightarrow>
          (case prepare_actions root mname mod_wd rest of
             Inl x \<Rightarrow> Inl x
           | Inr es \<Rightarrow> Inr (e # es)))"

definition set_additional_action_fields :: "env \<Rightarrow> string \<Rightarrow> raw_module \<Rightarrow> exn + (string, Action) dict" where
  "set_additional_action_fields e mname data =
     (case get_git_repo_root e of
        Inl x \<Rightarrow> Inl x
      | Inr root \<Rightarrow> prepare_actions root mname (rm_work_dir data) (rm_actions data))"

text \<open>The \<^verbatim>\<open>mode="after"\<close> validator: only the module's own directory is looked at.\<close>

definition assert_workdir_exists :: "env \<Rightarrow> Module \<Rightarrow> exn + Module" where
  "assert_workdir_exists e m =
     (if \<not> path_exists e (m_work_dir m) then
        (case get_git_repo_root e of Inl x \<Rightarrow> Inl x | Inr root \<Rightarrow> Inl ValueError)
      else Inr m)"

definition Module_validate :: "env \<Rightarrow> string \<Rightarrow> raw_module \<Rightarrow> exn + Module" where
  "Module_validate e mname data0 =
     (case rebase_workdir_onto_git_repo_root e data0 of
        Inl x \<Rightarrow> Inl x
      | Inr data \<Rightarrow>
          (case set_additional_action_fields e mname data of
             Inl x \<Rightarrow> Inl x
           | Inr acts \<Rightarrow>
               assert_workdir_exists e
                 \<lparr>m_name = mname, m_work_dir = Path_of (rm_work_dir data), m_actions = acts\<rparr>))"

text \<open>
  \<^verbatim>\<open>BPMConfig.model_validate\<close>: \<^verbatim>\<open>add_module_names_to_modules\<close> gives each module its
  key as name, then every module is validated.
\<close>

fun validate_modules :: "env \<Rightarrow> (string, raw_module) dict \<Rightarrow> exn + (string, Module) dict" where
  "validate_modules e [] = Inr []"
| "validate_modules e ((k, data) # rest) =
     (case Module_validate e k data of
        Inl x \<Rightarrow> Inl x
      | Inr m \<Rightarrow>
          (case validate_modules e rest of
             Inl x \<Rightarrow> Inl x
           | Inr ms \<Rightarrow> Inr ((k, m) # ms)))"

definition BPMConfig_validate :: "env \<Rightarrow> (string, raw_module) dict \<Rightarrow> exn + BPMConfig" where
  "BPMConfig_validate e raw =
     (case validate_modules e raw of Inl x \<Rightarrow> Inl x | Inr ms \<Rightarrow> Inr \<lparr>modules = ms\<rparr>)"

text \<open>The working directories of all actions of a configuration, module by module.\<close>

definition action_dirs :: "BPMConfig \<Rightarrow> path list" where
  "action_dirs config =
     concat (map (\<lambda>m. map work_dir (values_of (m_actions m))) (values_of (modules config)))"

text \<open>Path components as the parser produces them.\<close>

definition valid_part :: "string \<Rightarrow> bool" where
  "valid_part x = (x \<noteq> [] \<and> x \<noteq> ''.'' \<and> CHR ''/'' \<notin> set x)"

definition valid_path :: "path \<Rightarrow> bool" where
  "valid_path p = list_all valid_part (tail_of p)"

section \<open>\<^verbatim>\<open>logger.py\<close> and the observable effects\<close>

datatype info_msg =
    RunningSimultaneously
  | RunningInSeries
  | RunningAction Action
  | Completed Action int
  | AllActionsCompleted
  | AllProcessesCompleted
  | Killed Action nat

datatype warn_msg =
    ArgsPartlyIgnored string nat nat nat
  | ReceivedInterrupt

datatype error_msg =
    UnknownModule string "string list"
  | UnknownAction string string "string list"
  | ArgsNotAllowed string "string option" nat
  | NotAGroup string
  | SpawnError string string
  | KillError Action
  | StreamError string

datatype event =
    Print_blank
  | Print_info info_msg
  | Print_warn warn_msg
  | Print_error error_msg
  | Popen "string list" path
  | Subprocess_run "string list" path
  | Sleep
  | Terminate nat
  | Wait nat "nat option"
  | Kill nat
  | Print_line string string
  | Close_stream

datatype outcome = Normal | SysExit int | Raised exn

definition logger_info :: "info_msg \<Rightarrow> event list" where
  "logger_info m = [Print_info m]"

definition logger_warn :: "warn_msg \<Rightarrow> event list" where
  "logger_warn m = [Print_warn m]"

text \<open>\<^verbatim>\<open>error(message, exiting)\<close>: print, and \<^verbatim>\<open>exit(1)\<close> when \<open>exiting\<close>.\<close>

definition logger_error :: "error_msg \<Rightarrow> bool \<Rightarrow> event list \<times> outcome" where
  "logger_error m exiting = ([Print_error m], if exiting then SysExit 1 else Normal)"

fun is_popen :: "event \<Rightarrow> bool" where
  "is_popen (Popen c d) = True"
| "is_popen e = False"

fun is_subprocess_run :: "event \<Rightarrow> bool" where
  "is_subprocess_run (Subprocess_run c d) = True"
| "is_subprocess_run e = False"

fun is_spawn :: "event \<Rightarrow> bool" where
  "is_spawn (Popen c d) = True"
| "is_spawn (Subprocess_run c d) = True"
| "is_spawn e = False"

section \<open>\<^verbatim>\<open>cli.py\<close>: resolving the command line\<close>

text \<open>What \<^verbatim>\<open>argparse\<close> hands over: \<^verbatim>\<open>--module\<close>, \<^verbatim>\<open>action\<close> and the remaining words.\<close>

record namespace =
  ns_module :: "string option"
  ns_action :: string
  ns_args :: "string list"

record Args =
  sel_module :: "Module option"
  sel_actions :: "Action list"
  sel_args :: "string list"

text \<open>\<^verbatim>\<open>[(a.args if a.args else False) for a in self.actions]\<close>, and \<^verbatim>\<open>sum\<close> of it.\<close>

definition actions_accepting_args :: "Action list \<Rightarrow> bool list" where
  "actions_accepting_args acts = map (\<lambda>a. if truthy (args a) then truthy (args a) else False) acts"

definition sum_bools :: "bool list \<Rightarrow> nat" where
  "sum_bools bs = length (filter (\<lambda>b. b) bs)"

text \<open>
  \<^verbatim>\<open>Args.__init__\<close>.  The result is the printed lines and either the outcome that
  ended the program (\<^verbatim>\<open>logger.error\<close> with \<^verbatim>\<open>exiting=True\<close>) or the selection.
  The test \<^verbatim>\<open>if args.module:\<close> is a truthiness test: an empty module name takes the
  group branch.
\<close>

definition Args_module :: "BPMConfig \<Rightarrow> namespace \<Rightarrow> string \<Rightarrow> event list \<times> (outcome + Args)" where
  "Args_module config ns mname =
     (case dict_get (modules config) mname of
        None \<Rightarrow>
          (case logger_error (UnknownModule mname (keys (modules config))) True of
             (evs, oc) \<Rightarrow> (evs, Inl oc))
      | Some m \<Rightarrow>
          (case dict_get (m_actions m) (ns_action ns) of
             None \<Rightarrow>
               (case logger_error (UnknownAction (ns_action ns) mname (keys (m_actions m))) True of
                  (evs, oc) \<Rightarrow> (evs, Inl oc))
           | Some a \<Rightarrow>
               (if ns_args ns \<noteq> [] \<and> \<not> truthy (args a) then
                  (case logger_error
                          (ArgsNotAllowed (ns_action ns) (Some mname) (length (ns_args ns))) True of
                     (evs, oc) \<Rightarrow> (evs, Inl oc))
                else ([], Inr \<lparr>sel_module = Some m, sel_actions = [a], sel_args = ns_args ns\<rparr>))))"

definition Args_group :: "BPMConfig \<Rightarrow> namespace \<Rightarrow> event list \<times> (outcome + Args)" where
  "Args_group config ns =
     (let ags = action_groups config in
      case dict_get ags (ns_action ns) of
        None \<Rightarrow>
          (case logger_error (NotAGroup (ns_action ns)) True of (evs, oc) \<Rightarrow> (evs, Inl oc))
      | Some acts \<Rightarrow>
          (if ns_args ns \<noteq> [] then
             (let accepting = actions_accepting_args acts in
              if \<not> list_ex (\<lambda>b. b) accepting then
                (case logger_error (ArgsNotAllowed (ns_action ns) None (length (ns_args ns))) True of
                   (evs, oc) \<Rightarrow> (evs, Inl oc))
              else if \<not> list_all (\<lambda>b. b) accepting then
                (let yes = sum_bools accepting;
                     no = length acts - sum_bools accepting
                 in (logger_warn (ArgsPartlyIgnored (ns_action ns) yes (length acts) no),
                     Inr \<lparr>sel_module = None, sel_actions = acts, sel_args = ns_args ns\<rparr>))
              else ([], Inr \<lparr>sel_module = None, sel_actions = acts, sel_args = ns_args ns\<rparr>))
           else ([], Inr \<lparr>sel_module = None, sel_actions = acts, sel_args = ns_args ns\<rparr>)))"

definition Args_init :: "BPMConfig \<Rightarrow> namespace \<Rightarrow> event list \<times> (outcome + Args)" where
  "Args_init config ns =
     (case (if truthy_str (ns_module ns) then ns_module ns else None) of
        Some mname \<Rightarrow> Args_module config ns mname
      | None \<Rightarrow> Args_group config ns)"

section \<open>\<^verbatim>\<open>cli.py\<close>: running the actions\<close>

text \<open>
  A child process as the runner sees it: how many more calls of \<^verbatim>\<open>poll()\<close> answer
  \<^verbatim>\<open>None\<close> (\<open>None\<close>: it never exits by itself), its exit code, and how it answers the
  calls of the teardown.
\<close>

datatype wait_result = Exited | TimeoutExpired | WaitFailed

record proc =
  pid :: nat
  polls_left :: "nat option"
  returncode :: int
  terminate_raises :: bool
  grace_wait :: wait_result
  kill_raises :: bool
  final_wait_raises :: bool

datatype 'a spawned = Started 'a | NotFound string string

text \<open>
  The operating system and the library, as parameters: \<^verbatim>\<open>shlex.split\<close> (\<open>None\<close>: it
  raises \<^verbatim>\<open>ValueError\<close>), \<^verbatim>\<open>subprocess.Popen\<close> and \<^verbatim>\<open>subprocess.run\<close>
  (\<open>NotFound\<close>: \<^verbatim>\<open>FileNotFoundError\<close> with its \<^verbatim>\<open>strerror\<close> and \<^verbatim>\<open>filename\<close>).
\<close>

record world =
  shlex_split :: "string \<Rightarrow> string list option"
  popen :: "string list \<Rightarrow> path \<Rightarrow> proc spawned"
  subprocess_run :: "string list \<Rightarrow> path \<Rightarrow> int spawned"

record ActionRunner =
  r_actions :: "Action list"
  can_run_simultaneously :: bool
  action_args :: "string list"
  processes :: "(Action, proc) dict"

definition ActionRunner_init :: "Args \<Rightarrow> ActionRunner" where
  "ActionRunner_init a =
     \<lparr>r_actions = sel_actions a,
      can_run_simultaneously = list_all truthy (map bg (sel_actions a)),
      action_args = sel_args a,
      processes = []\<rparr>"

text \<open>
  \<^verbatim>\<open>_stream_output\<close>, the body of a reader thread, over the answers of successive
  \<^verbatim>\<open>stream.readline()\<close> calls: a decoded line, the empty bytes at the end of the
  stream, or a raised \<^verbatim>\<open>Exception\<close>.  The handler calls \<^verbatim>\<open>logger.error\<close> with
  the default \<^verbatim>\<open>exiting=True\<close>; the \<^verbatim>\<open>finally\<close> clause closes the stream on every
  path.  The outcome is that of the thread, not of the program.
\<close>

datatype read_result = Line string | Eof | ReadFails

definition prefix_of :: "Action \<Rightarrow> string" where
  "prefix_of a = module_name' a @ ''.'' @ name a"

fun stream_output :: "read_result list \<Rightarrow> string \<Rightarrow> event list \<times> outcome" where
  "stream_output [] prefix = ([Close_stream], Normal)"
| "stream_output (Eof # rest) prefix = ([Close_stream], Normal)"
| "stream_output (Line s # rest) prefix =
     (case stream_output rest prefix of (evs, oc) \<Rightarrow> (Print_line prefix s # evs, oc))"
| "stream_output (ReadFails # rest) prefix =
     (case logger_error (StreamError prefix) True of (evs, oc) \<Rightarrow> (evs @ [Close_stream], oc))"

text \<open>
  The first loop of the concurrent branch.  A \<^verbatim>\<open>KeyboardInterrupt\<close> is delivered at
  the start of round \<open>t\<close> when \<open>intr = Some t\<close>; rounds count the iterations of this loop
  and then those of the polling loop.  The reader threads are not part of the model.
\<close>

fun start_all ::
  "world \<Rightarrow> nat option \<Rightarrow> nat \<Rightarrow> string list \<Rightarrow> Action list \<Rightarrow> (Action, proc) dict
   \<Rightarrow> event list \<times> outcome \<times> (Action, proc) dict" where
  "start_all w intr t xs [] ps = ([], Normal, ps)"
| "start_all w intr t xs (a # as) ps =
     (if intr = Some t then ([], Raised KeyboardInterrupt, ps)
      else
        (case shlex_split w (cmd a) of
           None \<Rightarrow> (logger_info (RunningAction a), Raised ValueError, ps)
         | Some toks \<Rightarrow>
             (let command = toks @ xs in
              case popen w command (work_dir a) of
                NotFound strerror filename \<Rightarrow>
                  (case logger_error (SpawnError strerror filename) True of
                     (evs, oc) \<Rightarrow>
                       (logger_info (RunningAction a) @ Popen command (work_dir a) # evs, oc, ps))
              | Started p \<Rightarrow>
                  (case start_all w intr (Suc t) xs as (dict_set ps a p) of
                     (evs, r) \<Rightarrow>
                       (logger_info (RunningAction a) @ Popen command (work_dir a) # evs, r)))))"

text \<open>\<^verbatim>\<open>proc.poll()\<close>: the exit code once the process has ended.\<close>

definition poll :: "proc \<Rightarrow> int option \<times> proc" where
  "poll p =
     (case polls_left p of
        None \<Rightarrow> (None, p)
      | Some 0 \<Rightarrow> (Some (returncode p), p)
      | Some (Suc n) \<Rightarrow> (None, p\<lparr>polls_left := Some n\<rparr>))"

text \<open>\<^verbatim>\<open>for action, proc in list(self.processes.items())\<close>: one pass over a snapshot.\<close>

fun poll_all :: "(Action \<times> proc) list \<Rightarrow> (Action, proc) dict \<Rightarrow> event list \<times> (Action, proc) dict" where
  "poll_all [] ps = ([], ps)"
| "poll_all ((a, p) # rest) ps =
     (case poll p of
        (Some rc, p') \<Rightarrow>
          (case poll_all rest (dict_del ps a) of
             (evs, ps') \<Rightarrow> (logger_info (Completed a rc) @ evs, ps'))
      | (None, p') \<Rightarrow> poll_all rest (dict_set ps a p'))"

text \<open>
  \<^verbatim>\<open>while self.processes:\<close> with fuel, since a child may never exit: \<open>None\<close> is a
  loop that is still running when the fuel is spent.
\<close>

fun poll_loop ::
  "nat \<Rightarrow> nat option \<Rightarrow> nat \<Rightarrow> (Action, proc) dict
   \<Rightarrow> (event list \<times> outcome \<times> (Action, proc) dict) option" where
  "poll_loop fuel intr t [] = Some ([], Normal, [])"
| "poll_loop 0 intr t (e # ps) = None"
| "poll_loop (Suc fuel) intr t (e # ps) =
     (if intr = Some t then Some ([], Raised KeyboardInterrupt, e # ps)
      else
        (case poll_all (e # ps) (e # ps) of
           (evs, ps') \<Rightarrow>
             (case poll_loop fuel intr (Suc t) ps' of
                None \<Rightarrow> None
              | Some (evs', r) \<Rightarrow> Some (evs @ (if ps' \<noteq> [] then [Sleep] else []) @ evs', r))))"

text \<open>\<^verbatim>\<open>_kill_all_processes\<close>.  The grace period of \<^verbatim>\<open>proc.wait(timeout=3)\<close>.\<close>

definition grace_period :: nat where
  "grace_period = 3"

text \<open>
  The body of the \<^verbatim>\<open>try\<close> for one process; the flag tells whether it raised an
  \<^verbatim>\<open>Exception\<close>.
\<close>

definition terminate_and_wait :: "Action \<Rightarrow> proc \<Rightarrow> event list \<times> bool" where
  "terminate_and_wait a p =
     (if terminate_raises p then ([Terminate (pid p)], True)
      else
        (case grace_wait p of
           Exited \<Rightarrow>
             ([Terminate (pid p), Wait (pid p) (Some grace_period)] @ logger_info (Killed a (pid p)),
              False)
         | WaitFailed \<Rightarrow> ([Terminate (pid p), Wait (pid p) (Some grace_period)], True)
         | TimeoutExpired \<Rightarrow>
             (if kill_raises p then
                ([Terminate (pid p), Wait (pid p) (Some grace_period), Kill (pid p)], True)
              else if final_wait_raises p then
                ([Terminate (pid p), Wait (pid p) (Some grace_period), Kill (pid p),
                  Wait (pid p) None], True)
              else
                ([Terminate (pid p), Wait (pid p) (Some grace_period), Kill (pid p),
                  Wait (pid p) None] @ logger_info (Killed a (pid p)), False))))"

definition kill_one :: "Action \<Rightarrow> proc \<Rightarrow> event list \<times> outcome" where
  "kill_one a p =
     (case terminate_and_wait a p of
        (evs, False) \<Rightarrow> (evs, Normal)
      | (evs, True) \<Rightarrow> (case logger_error (KillError a) False of (evs', oc) \<Rightarrow> (evs @ evs', oc)))"

fun kill_each :: "(Action \<times> proc) list \<Rightarrow> event list \<times> outcome" where
  "kill_each [] = ([], Normal)"
| "kill_each ((a, p) # rest) =
     (case kill_one a p of
        (evs, Normal) \<Rightarrow> (case kill_each rest of (evs', oc) \<Rightarrow> (evs @ evs', oc))
      | (evs, oc) \<Rightarrow> (evs, oc))"

definition kill_all_processes :: "(Action, proc) dict \<Rightarrow> event list \<times> outcome \<times> (Action, proc) dict" where
  "kill_all_processes ps =
     (case kill_each ps of
        (evs, Normal) \<Rightarrow> (evs, Normal, [])
      | (evs, oc) \<Rightarrow> (evs, oc, ps))"

text \<open>The \<^verbatim>\<open>try\<close> block of the concurrent branch, and the branch with its handler.\<close>

definition try_block ::
  "world \<Rightarrow> nat option \<Rightarrow> nat \<Rightarrow> ActionRunner
   \<Rightarrow> (event list \<times> outcome \<times> (Action, proc) dict) option" where
  "try_block w intr fuel r =
     (case start_all w intr 0 (action_args r) (r_actions r) (processes r) of
        (evs, Normal, ps) \<Rightarrow>
          (case poll_loop fuel intr (length (r_actions r)) ps of
             None \<Rightarrow> None
           | Some (evs', Normal, ps') \<Rightarrow>
               Some (evs @ evs' @ Print_blank # logger_info AllActionsCompleted, Normal, ps')
           | Some (evs', oc, ps') \<Rightarrow> Some (evs @ evs', oc, ps'))
      | (evs, oc, ps) \<Rightarrow> Some (evs, oc, ps))"

definition run_simultaneously ::
  "world \<Rightarrow> nat option \<Rightarrow> nat \<Rightarrow> ActionRunner
   \<Rightarrow> (event list \<times> outcome \<times> (Action, proc) dict) option" where
  "run_simultaneously w intr fuel r =
     (case try_block w intr fuel r of
        None \<Rightarrow> None
      | Some (evs, Raised KeyboardInterrupt, ps) \<Rightarrow>
          (case kill_all_processes ps of
             (evs', Normal, ps') \<Rightarrow>
               Some (logger_info RunningSimultaneously @ evs @ Print_blank
                       # logger_warn ReceivedInterrupt @ evs', SysExit 1, ps')
           | (evs', oc, ps') \<Rightarrow>
               Some (logger_info RunningSimultaneously @ evs @ Print_blank
                       # logger_warn ReceivedInterrupt @ evs', oc, ps'))
      | Some (evs, oc, ps) \<Rightarrow> Some (logger_info RunningSimultaneously @ evs, oc, ps))"

text \<open>
  The loop of the sequential branch; \<^verbatim>\<open>subprocess.run\<close> blocks until the child has
  ended.  A \<^verbatim>\<open>KeyboardInterrupt\<close> has no handler here.
\<close>

fun run_each :: "world \<Rightarrow> nat option \<Rightarrow> nat \<Rightarrow> string list \<Rightarrow> Action list \<Rightarrow> event list \<times> outcome" where
  "run_each w intr t xs [] = ([], Normal)"
| "run_each w intr t xs (a # as) =
     (if intr = Some t then ([], Raised KeyboardInterrupt)
      else
        (case shlex_split w (cmd a) of
           None \<Rightarrow> (Print_blank # logger_info (RunningAction a), Raised ValueError)
         | Some toks \<Rightarrow>
             (let command = toks @ xs in
              case subprocess_run w command (work_dir a) of
                NotFound strerror filename \<Rightarrow>
                  (case logger_error (SpawnError strerror filename) True of
                     (evs, oc) \<Rightarrow>
                       (Print_blank # logger_info (RunningAction a)
                          @ Subprocess_run command (work_dir a) # evs, oc))
              | Started rc \<Rightarrow>
                  (case run_each w intr (Suc t) xs as of
                     (evs, oc) \<Rightarrow>
                       (Print_blank # logger_info (RunningAction a)
                          @ Subprocess_run command (work_dir a) # logger_info (Completed a rc) @ evs,
                        oc)))))"

definition run_in_series ::
  "world \<Rightarrow> nat option \<Rightarrow> ActionRunner \<Rightarrow> event list \<times> outcome \<times> (Action, proc) dict" where
  "run_in_series w intr r =
     (case run_each w intr 0 (action_args r) (r_actions r) of
        (evs, Normal) \<Rightarrow>
          (logger_info RunningInSeries @ evs @ Print_blank # logger_info AllProcessesCompleted,
           Normal, processes r)
      | (evs, oc) \<Rightarrow> (logger_info RunningInSeries @ evs, oc, processes r))"

text \<open>\<^verbatim>\<open>ActionRunner.run\<close>: printed lines and calls, how it ended, and the live table.\<close>

definition run ::
  "world \<Rightarrow> nat option \<Rightarrow> nat \<Rightarrow> ActionRunner
   \<Rightarrow> (event list \<times> outcome \<times> (Action, proc) dict) option" where
  "run w intr fuel r =
     (if can_run_simultaneously r then run_simultaneously w intr fuel r
      else Some (run_in_series w intr r))"

text \<open>\<^verbatim>\<open>main\<close>, from the loaded configuration on.\<close>

definition main ::
  "world \<Rightarrow> nat option \<Rightarrow> nat \<Rightarrow> BPMConfig \<Rightarrow> namespace
   \<Rightarrow> (event list \<times> outcome \<times> (Action, proc) dict) option" where
  "main w intr fuel config ns =
     (case Args_init config ns of
        (evs, Inl oc) \<Rightarrow> Some (evs, oc, [])
      | (evs, Inr a) \<Rightarrow>
          (case run w intr fuel (ActionRunner_init a) of
             None \<Rightarrow> None
           | Some (evs', r) \<Rightarrow> Some (evs @ evs', r)))"

text \<open>The calls made on child processes in a trace, and the processes asked to terminate.\<close>

fun is_call :: "event \<Rightarrow> bool" where
  "is_call (Terminate n) = True"
| "is_call (Wait n t) = True"
| "is_call (Kill n) = True"
| "is_call e = False"

fun terminated :: "event list \<Rightarrow> nat list" where
  "terminated [] = []"
| "terminated (Terminate n # evs) = n # terminated evs"
| "terminated (e # evs) = terminated evs"

text \<open>The commands handed to \<^verbatim>\<open>Popen\<close> or \<^verbatim>\<open>subprocess.run\<close> in a trace, in order.\<close>

fun spawned_commands :: "event list \<Rightarrow> string list list" where
  "spawned_commands [] = []"
| "spawned_commands (Popen c d # evs) = c # spawned_commands evs"
| "spawned_commands (Subprocess_run c d # evs) = c # spawned_commands evs"
| "spawned_commands (e # evs) = spawned_commands evs"

text \<open>Whether any step of the teardown of a process raises.\<close>

definition teardown_fails :: "proc \<Rightarrow> bool" where
  "teardown_fails p =
     (terminate_raises p \<or> grace_wait p = WaitFailed
      \<or> (grace_wait p = TimeoutExpired \<and> (kill_raises p \<or> final_wait_raises p)))"

section \<open>A small project, for concrete runs\<close>

text \<open>
  Two modules that both define \<^verbatim>\<open>start\<close>; only \<^verbatim>\<open>web.start\<close> accepts extra
  arguments and may run in the background.  \<^verbatim>\<open>api\<close> alone defines \<^verbatim>\<open>build\<close>.
\<close>

definition ex_root :: path where
  "ex_root = Path Root1 [''repo'']"

definition api_start :: Action where
  "api_start = \<lparr>name = ''start'', module_name' = ''api'', cmd = ''uvicorn app'',
     args = Some False, watch_cmd = None, work_dir = Path Root1 [''repo'', ''api''],
     bg = Some False\<rparr>"

definition api_build :: Action where
  "api_build = \<lparr>name = ''build'', module_name' = ''api'', cmd = ''make'',
     args = Some False, watch_cmd = None, work_dir = Path Root1 [''repo'', ''api''],
     bg = Some False\<rparr>"

definition web_start :: Action where
  "web_start = \<lparr>name = ''start'', module_name' = ''web'', cmd = ''npm start'',
     args = Some True, watch_cmd = None, work_dir = Path Root1 [''repo'', ''web''],
     bg = Some True\<rparr>"

definition api_module :: Module where
  "api_module = \<lparr>m_name = ''api'', m_work_dir = Path Root1 [''repo'', ''api''],
     m_actions = [(''start'', api_start), (''build'', api_build)]\<rparr>"

definition web_module :: Module where
  "web_module = \<lparr>m_name = ''web'', m_work_dir = Path Root1 [''repo'', ''web''],
     m_actions = [(''start'', web_start)]\<rparr>"

definition ex_config :: BPMConfig where
  "ex_config = \<lparr>modules = [(''api'', api_module), (''web'', web_module)]\<rparr>"

text \<open>The same project with \<^verbatim>\<open>api.start\<close> marked as backgroundable.\<close>

definition api_start_bg :: Action where
  "api_start_bg = api_start\<lparr>bg := Some True\<rparr>"

definition ex_config_bg :: BPMConfig where
  "ex_config_bg = \<lparr>modules =
     [(''api'', api_module\<lparr>m_actions := [(''start'', api_start_bg), (''build'', api_build)]\<rparr>),
      (''web'', web_module)]\<rparr>"

text \<open>The same project where \<^verbatim>\<open>web.start\<close> leaves \<^verbatim>\<open>args\<close> unset (\<^verbatim>\<open>null\<close>).\<close>

definition web_start_noargs :: Action where
  "web_start_noargs = web_start\<lparr>args := None\<rparr>"

definition ex_config_noargs :: BPMConfig where
  "ex_config_noargs = \<lparr>modules =
     [(''api'', api_module), (''web'', web_module\<lparr>m_actions := [(''start'', web_start_noargs)]\<rparr>)]\<rparr>"

text \<open>
  A world for these commands: \<^verbatim>\<open>shlex.split\<close> on words without quotes or escapes is a
  split at blanks; every child started by \<^verbatim>\<open>Popen\<close> answers \<^verbatim>\<open>None\<close> to two polls and
  then exits with code 0; \<^verbatim>\<open>subprocess.run\<close> returns 0.
\<close>

fun split_blank :: "string \<Rightarrow> string list" where
  "split_blank [] = [[]]"
| "split_blank (c # cs) =
     (if c = CHR '' '' then [] # split_blank cs
      else (case split_blank cs of [] \<Rightarrow> [[c]] | w # ws \<Rightarrow> (c # w) # ws))"

definition ex_proc :: "nat \<Rightarrow> proc" where
  "ex_proc n = \<lparr>pid = n, polls_left = Some 2, returncode = 0, terminate_raises = False,
     grace_wait = Exited, kill_raises = False, final_wait_raises = False\<rparr>"

definition ex_world :: world where
  "ex_world = \<lparr>shlex_split = (\<lambda>s. Some (filter (\<lambda>x. x \<noteq> []) (split_blank s))),
     popen = (\<lambda>c d. Started (ex_proc (length (concat c)))),
     subprocess_run = (\<lambda>c d. Started 0)\<rparr>"

text \<open>The same world on a machine where \<^verbatim>\<open>npm\<close> is not installed.\<close>

definition ex_world_no_npm :: world where
  "ex_world_no_npm = ex_world\<lparr>popen := (\<lambda>c d.
     if take 1 c = [''npm''] then NotFound ''No such file or directory'' ''npm''
     else Started (ex_proc (length (concat c))))\<rparr>"

text \<open>
  The command line \<^verbatim>\<open>bpm start -- --verbose\<close> (the separator makes \<^verbatim>\<open>argparse\<close>
  read \<^verbatim>\<open>--verbose\<close> as a positional word), and two selections of the runner.
\<close>

definition ns_start_verbose :: namespace where
  "ns_start_verbose = \<lparr>ns_module = None, ns_action = ''start'', ns_args = [''--verbose'']\<rparr>"

definition sel_mixed :: Args where
  "sel_mixed = \<lparr>sel_module = None, sel_actions = [api_start, web_start], sel_args = []\<rparr>"

definition sel_bg :: Args where
  "sel_bg = \<lparr>sel_module = None, sel_actions = [api_start_bg, web_start], sel_args = []\<rparr>"

text \<open>A child that ignores the request to terminate, and one whose signalling fails.\<close>

definition stubborn_proc :: proc where
  "stubborn_proc = \<lparr>pid = 7, polls_left = None, returncode = 0, terminate_raises = False,
     grace_wait = TimeoutExpired, kill_raises = False, final_wait_raises = False\<rparr>"

definition broken_proc :: proc where
  "broken_proc = \<lparr>pid = 8, polls_left = None, returncode = 0, terminate_raises = True,
     grace_wait = Exited, kill_raises = False, final_wait_raises = False\<rparr>"

text \<open>
  Raw data whose action names a directory of its own, and a file system in which only
  the module's directory exists.
\<close>

definition ex_raw :: "(string, raw_module) dict" where
  "ex_raw = [(''api'', \<lparr>rm_work_dir = ''api'', rm_actions =
     [(''start'', \<lparr>ra_cmd = ''uvicorn app'', ra_args = Some False, ra_watch_cmd = None,
                    ra_work_dir = Some ''missing'', ra_bg = Some False\<rparr>),
      (''build'', \<lparr>ra_cmd = ''make'', ra_args = Some False, ra_watch_cmd = None,
                    ra_work_dir = None, ra_bg = Some False\<rparr>)]\<rparr>)]"

definition ex_raw_absent :: "(string, raw_module) dict" where
  "ex_raw_absent = [(''web'', \<lparr>rm_work_dir = ''web'', rm_actions =
     [(''start'', \<lparr>ra_cmd = ''npm start'', ra_args = Some True, ra_watch_cmd = None,
                    ra_work_dir = None, ra_bg = Some True\<rparr>)]\<rparr>)]"

text \<open>What loading \<open>ex_raw\<close> yields in that file system.\<close>

definition ex_loaded :: BPMConfig where
  "ex_loaded = \<lparr>modules = [(''api'',
     \<lparr>m_name = ''api'', m_work_dir = Path Root1 [''repo'', ''api''], m_actions =
        [(''start'', \<lparr>name = ''start'', module_name' = ''api'', cmd = ''uvicorn app'',
            args = Some False, watch_cmd = None, work_dir = Path Root1 [''repo'', ''missing''],
            bg = Some False\<rparr>),
         (''build'', api_build)]\<rparr>)]\<rparr>"

definition ex_env :: env where
  "ex_env = \<lparr>git_toplevel = Some ''/repo'', path_exists = (\<lambda>p. p = Path Root1 [''repo'', ''api''])\<rparr>"

section \<open>The flat action mapping and the action groups\<close>

lemma dict_get_set: "dict_get (dict_set d k v) k' = (if k' = k then Some v else dict_get d k')"
  by (induction d) (auto simp: dict_get_def)

lemma keys_dict_set:
  "keys (dict_set d k v) = (if k \<in> set (keys d) then keys d else keys d @ [k])"
  by (induction d) (force simp: keys_def)+

lemma wf_dict_set: "wf_dict d \<Longrightarrow> wf_dict (dict_set d k v)"
  by (simp add: wf_dict_def keys_dict_set)

lemma dict_get_add_action:
  "dict_get (add_action cmds (n, a)) k =
     (if k = n then Some (lookup_list cmds n @ [a]) else dict_get cmds k)"
  by (auto simp: add_action_def lookup_list_def dict_get_set Let_def split: option.splits)

lemma lookup_add_action:
  "lookup_list (add_action cmds e) k = lookup_list cmds k @ (if fst e = k then [snd e] else [])"
  by (cases e) (auto simp: lookup_list_def dict_get_add_action split: option.splits)

lemma no_empty_add_action: "no_empty cmds \<Longrightarrow> no_empty (add_action cmds e)"
  by (cases e) (auto simp: no_empty_def dict_get_add_action)

lemma wf_add_action: "wf_dict cmds \<Longrightarrow> wf_dict (add_action cmds e)"
  by (cases e) (auto simp: add_action_def Let_def wf_dict_set split: option.splits)

lemma lookup_foldl_add_action:
  "lookup_list (foldl add_action cmds es) k = lookup_list cmds k @ map snd (filter (\<lambda>e. fst e = k) es)"
  by (induction es arbitrary: cmds) (auto simp: lookup_add_action)

lemma no_empty_foldl_add_action: "no_empty cmds \<Longrightarrow> no_empty (foldl add_action cmds es)"
  by (induction es arbitrary: cmds) (auto simp: no_empty_add_action)

lemma wf_foldl_add_action: "wf_dict cmds \<Longrightarrow> wf_dict (foldl add_action cmds es)"
  by (induction es arbitrary: cmds) (auto simp: wf_add_action)

lemma filter_key_distinct:
  "distinct (map fst es) \<Longrightarrow>
   map snd (filter (\<lambda>e. fst e = k) es) = (case map_of es k of None \<Rightarrow> [] | Some a \<Rightarrow> [a])"
proof (induction es)
  case Nil
  then show ?case by simp
next
  case (Cons e es)
  show ?case
  proof (cases "fst e = k")
    case True
    with Cons.prems have "k \<notin> fst ` set es" by auto
    then have "filter (\<lambda>e. fst e = k) es = []" by (auto simp: filter_empty_conv)
    with True show ?thesis by (cases e) auto
  next
    case False
    with Cons show ?thesis by (cases e) auto
  qed
qed

lemma lookup_add_module:
  "wf_dict (m_actions m) \<Longrightarrow>
   lookup_list (add_module cmds m) k = lookup_list cmds k @ module_entry k m"
  by (simp add: add_module_def lookup_foldl_add_action filter_key_distinct wf_dict_def keys_def
      module_entry_def dict_get_def)

lemma lookup_foldl_add_module:
  "list_all (\<lambda>m. wf_dict (m_actions m)) ms \<Longrightarrow>
   lookup_list (foldl add_module cmds ms) k = lookup_list cmds k @ concat (map (module_entry k) ms)"
  by (induction ms arbitrary: cmds) (auto simp: lookup_add_module)

lemma no_empty_foldl_add_module: "no_empty cmds \<Longrightarrow> no_empty (foldl add_module cmds ms)"
  by (induction ms arbitrary: cmds) (auto simp: add_module_def no_empty_foldl_add_action)

lemma wf_foldl_add_module: "wf_dict cmds \<Longrightarrow> wf_dict (foldl add_module cmds ms)"
  by (induction ms arbitrary: cmds) (auto simp: add_module_def wf_foldl_add_action)

lemma lookup_all_actions:
  "wf_config config \<Longrightarrow> lookup_list (all_actions config) n = actions_named config n"
  using lookup_foldl_add_module [of "values_of (modules config)" "[]" n]
  by (simp add: all_actions_def wf_config_def actions_named_def lookup_list_def dict_get_def
      module_entry_def [abs_def])

lemma no_empty_all_actions: "no_empty (all_actions config)"
  unfolding all_actions_def by (rule no_empty_foldl_add_module) (simp add: no_empty_def dict_get_def)

lemma wf_all_actions: "wf_dict (all_actions config)"
  unfolding all_actions_def by (rule wf_foldl_add_module) (simp add: wf_dict_def keys_def)

lemma dict_get_all_actions:
  "wf_config config \<Longrightarrow>
   dict_get (all_actions config) n =
     (if actions_named config n = [] then None else Some (actions_named config n))"
  using lookup_all_actions [of config n] no_empty_all_actions [of config]
  by (auto simp: lookup_list_def no_empty_def split: option.splits)

lemma length_actions_named:
  "length (actions_named config n) = length (defining_modules config n)"
proof -
  have "length (concat (map (\<lambda>m. case dict_get (m_actions m) n of None \<Rightarrow> [] | Some a \<Rightarrow> [a]) ms))
        = length (filter (\<lambda>m. n \<in> set (keys (m_actions m))) ms)" for ms :: "Module list"
  proof (induction ms)
    case Nil
    then show ?case by simp
  next
    case (Cons m ms)
    have "(dict_get (m_actions m) n = None) = (n \<notin> set (keys (m_actions m)))"
      by (simp add: dict_get_def keys_def map_of_eq_None_iff)
    with Cons show ?case by (auto split: option.splits)
  qed
  then show ?thesis by (simp add: actions_named_def defining_modules_def)
qed

lemma actions_named_defining:
  "wf_config config \<Longrightarrow>
   list_all2 (\<lambda>a m. dict_get (m_actions m) n = Some a)
     (actions_named config n) (defining_modules config n)"
proof -
  have "list_all2 (\<lambda>a m. dict_get (m_actions m) n = Some a)
          (concat (map (\<lambda>m. case dict_get (m_actions m) n of None \<Rightarrow> [] | Some a \<Rightarrow> [a]) ms))
          (filter (\<lambda>m. n \<in> set (keys (m_actions m))) ms)" for ms :: "Module list"
  proof (induction ms)
    case Nil
    then show ?case by simp
  next
    case (Cons m ms)
    have "(dict_get (m_actions m) n = None) = (n \<notin> set (keys (m_actions m)))"
      by (simp add: dict_get_def keys_def map_of_eq_None_iff)
    with Cons show ?case by (auto split: option.splits)
  qed
  then show ?thesis by (simp add: actions_named_def defining_modules_def)
qed

lemma dict_get_filter:
  "wf_dict d \<Longrightarrow>
   dict_get (filter (\<lambda>kv. P (snd kv)) d) k =
     (case dict_get d k of None \<Rightarrow> None | Some v \<Rightarrow> if P v then Some v else None)"
proof (induction d)
  case Nil
  then show ?case by (simp add: dict_get_def)
next
  case (Cons e d)
  obtain k' v' where e: "e = (k', v')" by (cases e)
  from Cons.prems e have nk: "k' \<notin> fst ` set d" and wf: "wf_dict d"
    by (auto simp: wf_dict_def keys_def)
  have none: "map_of (filter (\<lambda>kv. P (snd kv)) d) k' = None"
    using nk by (auto simp: map_of_eq_None_iff)
  from Cons.IH [OF wf] e none show ?case
    by (auto simp: dict_get_def split: option.splits)
qed

lemma dict_get_action_groups:
  "wf_config config \<Longrightarrow>
   dict_get (action_groups config) n =
     (if length (actions_named config n) > 1 then Some (actions_named config n) else None)"
proof -
  assume wf: "wf_config config"
  have "dict_get (filter (\<lambda>kv. (\<lambda>l. 1 < length l) (snd kv)) (all_actions config)) n =
          (case dict_get (all_actions config) n of
             None \<Rightarrow> None
           | Some v \<Rightarrow> if (\<lambda>l. 1 < length l) v then Some v else None)"
    by (rule dict_get_filter [OF wf_all_actions])
  with wf show ?thesis
    by (auto simp: action_groups_def dict_get_all_actions)
qed

text \<open>
  Claim C2.  In every configuration (a dictionary of modules, each with a dictionary of
  actions), \<^verbatim>\<open>all_actions\<close> maps a name to the list of the actions of that name: one
  per module that defines it, in the order in which the modules are declared, and a name
  nobody defines is no key.  \<^verbatim>\<open>action_groups\<close> are exactly the entries whose list has
  at least two elements.
\<close>

theorem C2_flat_mapping_and_groups:
  assumes "wf_config config"
  shows "dict_get (all_actions config) n =
           (if actions_named config n = [] then None else Some (actions_named config n))
       \<and> length (actions_named config n) = length (defining_modules config n)
       \<and> list_all2 (\<lambda>a m. dict_get (m_actions m) n = Some a)
            (actions_named config n) (defining_modules config n)
       \<and> wf_dict (all_actions config)
       \<and> action_groups config = filter (\<lambda>nd. length (snd nd) \<ge> 2) (all_actions config)"
proof -
  have "(\<lambda>nd :: string \<times> Action list. 1 < length (snd nd)) = (\<lambda>nd. 2 \<le> length (snd nd))"
    by (rule ext) arith
  then have "action_groups config = filter (\<lambda>nd. length (snd nd) \<ge> 2) (all_actions config)"
    by (simp add: action_groups_def)
  with assms show ?thesis
    by (simp add: dict_get_all_actions length_actions_named actions_named_defining wf_all_actions)
qed

lemma wf_ex_config: "wf_config ex_config"
  by (simp add: wf_config_def wf_dict_def keys_def values_of_def ex_config_def api_module_def
      web_module_def)

theorem C2_witness:
  "wf_config ex_config
   \<and> dict_get (all_actions ex_config) ''start'' = Some [api_start, web_start]
   \<and> defining_modules ex_config ''start'' = [api_module, web_module]
   \<and> map fst (action_groups ex_config) = [''start'']"
proof -
  have named: "actions_named ex_config ''start'' = [api_start, web_start]"
    by (simp add: actions_named_def ex_config_def values_of_def api_module_def web_module_def
        dict_get_def)
  have defs: "defining_modules ex_config ''start'' = [api_module, web_module]"
    by (simp add: defining_modules_def ex_config_def values_of_def api_module_def web_module_def
        keys_def)
  have alls: "all_actions ex_config = [(''start'', [api_start, web_start]), (''build'', [api_build])]"
    by (simp add: all_actions_def add_module_def add_action_def ex_config_def values_of_def
        api_module_def web_module_def dict_get_def)
  from C2_flat_mapping_and_groups [OF wf_ex_config, of "''start''"] named defs alls wf_ex_config
  show ?thesis by simp
qed

section \<open>Resolution of the command line\<close>

lemma Args_init_unqualified:
  "ns_module ns = None \<Longrightarrow> Args_init config ns = Args_group config ns"
  by (simp add: Args_init_def)

lemma Args_init_qualified:
  "ns_module ns = Some mname \<Longrightarrow> mname \<noteq> [] \<Longrightarrow> Args_init config ns = Args_module config ns mname"
  by (simp add: Args_init_def)

lemma main_resolution_failure:
  "Args_init config ns = (evs, Inl oc) \<Longrightarrow> main w intr fuel config ns = Some (evs, oc, [])"
  by (simp add: main_def)

text \<open>
  Claim C6.  In every configuration where exactly one module defines the action name,
  the name is no key of \<^verbatim>\<open>action_groups\<close>, and invoking it without \<^verbatim>\<open>--module\<close>
  prints the not-a-group error and exits with code 1; nothing is spawned and the live
  table is empty.
\<close>

theorem C6_single_module_name_is_not_a_group:
  assumes "wf_config config"
    and "length (defining_modules config n) = 1"
    and "ns_module ns = None"
    and "ns_action ns = n"
  shows "dict_get (action_groups config) n = None
       \<and> Args_init config ns = ([Print_error (NotAGroup n)], Inl (SysExit 1))
       \<and> main w intr fuel config ns = Some ([Print_error (NotAGroup n)], SysExit 1, [])
       \<and> \<not> list_ex is_spawn [Print_error (NotAGroup n)]"
proof -
  from assms(1,2) have nogroup: "dict_get (action_groups config) n = None"
    by (simp add: dict_get_action_groups length_actions_named)
  with assms(3,4) have res: "Args_init config ns = ([Print_error (NotAGroup n)], Inl (SysExit 1))"
    by (simp add: Args_init_unqualified Args_group_def logger_error_def)
  from nogroup res main_resolution_failure [OF res] show ?thesis by simp
qed

theorem C6_witness:
  "wf_config ex_config \<and> length (defining_modules ex_config ''build'') = 1
   \<and> main ex_world None 5 ex_config \<lparr>ns_module = None, ns_action = ''build'', ns_args = []\<rparr>
       = Some ([Print_error (NotAGroup ''build'')], SysExit 1, [])"
proof -
  have one: "length (defining_modules ex_config ''build'') = 1"
    by (simp add: defining_modules_def ex_config_def values_of_def api_module_def web_module_def
        keys_def)
  from C6_single_module_name_is_not_a_group [OF wf_ex_config one,
      of "\<lparr>ns_module = None, ns_action = ''build'', ns_args = []\<rparr>" ex_world None 5]
    wf_ex_config one
  show ?thesis by simp
qed

lemma truthy_eq: "truthy x = (x = Some True)"
  by (cases x) auto

lemma Args_module_failure:
  assumes "Args_module config ns mname = (evs, Inl oc)"
  shows "oc = SysExit 1 \<and> \<not> list_ex is_spawn evs"
proof (cases "dict_get (modules config) mname")
  case None
  with assms show ?thesis by (auto simp: Args_module_def logger_error_def)
next
  case (Some m)
  note m = this
  show ?thesis
  proof (cases "dict_get (m_actions m) (ns_action ns)")
    case None
    with assms m show ?thesis by (auto simp: Args_module_def logger_error_def)
  next
    case (Some a)
    with assms m show ?thesis
      by (cases "ns_args ns \<noteq> [] \<and> \<not> truthy (args a)")
        (auto simp: Args_module_def logger_error_def)
  qed
qed

lemma Args_module_success:
  assumes "Args_module config ns mname = (evs, Inr sel)"
  shows "length (sel_actions sel) = 1"
proof (cases "dict_get (modules config) mname")
  case None
  with assms show ?thesis by (auto simp: Args_module_def logger_error_def)
next
  case (Some m)
  note m = this
  show ?thesis
  proof (cases "dict_get (m_actions m) (ns_action ns)")
    case None
    with assms m show ?thesis by (auto simp: Args_module_def logger_error_def)
  next
    case (Some a)
    with assms m show ?thesis
      by (cases "ns_args ns \<noteq> [] \<and> \<not> truthy (args a)")
        (auto simp: Args_module_def logger_error_def)
  qed
qed

text \<open>
  Claim C4, amended.  When \<^verbatim>\<open>--module\<close> is given and is not the empty string:
  a module name outside the registry ends in the unknown-module error, an action name
  the module does not define in the unknown-action error, extra arguments for an action
  that does not accept them in the arguments-not-allowed error; each of them is an exit
  with code 1 during resolution, before the runner exists, so nothing is spawned.
  Otherwise the selection holds exactly the one action of that module.
\<close>

theorem C4_module_qualified_resolution:
  assumes "ns_module ns = Some mname" and "mname \<noteq> []"
  shows "(dict_get (modules config) mname = None \<longrightarrow>
            Args_init config ns =
              ([Print_error (UnknownModule mname (keys (modules config)))], Inl (SysExit 1)))
       \<and> (\<forall>m. dict_get (modules config) mname = Some m \<longrightarrow>
            (dict_get (m_actions m) (ns_action ns) = None \<longrightarrow>
               Args_init config ns =
                 ([Print_error (UnknownAction (ns_action ns) mname (keys (m_actions m)))],
                  Inl (SysExit 1)))
          \<and> (\<forall>a. dict_get (m_actions m) (ns_action ns) = Some a \<longrightarrow>
               (ns_args ns \<noteq> [] \<and> args a \<noteq> Some True \<longrightarrow>
                  Args_init config ns =
                    ([Print_error (ArgsNotAllowed (ns_action ns) (Some mname) (length (ns_args ns)))],
                     Inl (SysExit 1)))
             \<and> (ns_args ns = [] \<or> args a = Some True \<longrightarrow>
                  Args_init config ns =
                    ([], Inr \<lparr>sel_module = Some m, sel_actions = [a], sel_args = ns_args ns\<rparr>))))
       \<and> (\<forall>evs oc. Args_init config ns = (evs, Inl oc) \<longrightarrow>
            oc = SysExit 1 \<and> \<not> list_ex is_spawn evs
            \<and> main w intr fuel config ns = Some (evs, oc, []))
       \<and> (\<forall>evs sel. Args_init config ns = (evs, Inr sel) \<longrightarrow> length (sel_actions sel) = 1)"
proof -
  have eq: "Args_init config ns = Args_module config ns mname"
    using assms by (rule Args_init_qualified)
  have a: "dict_get (modules config) mname = None \<longrightarrow>
            Args_init config ns =
              ([Print_error (UnknownModule mname (keys (modules config)))], Inl (SysExit 1))"
    by (simp add: eq Args_module_def logger_error_def)
  have b: "\<forall>m. dict_get (modules config) mname = Some m \<longrightarrow>
            (dict_get (m_actions m) (ns_action ns) = None \<longrightarrow>
               Args_init config ns =
                 ([Print_error (UnknownAction (ns_action ns) mname (keys (m_actions m)))],
                  Inl (SysExit 1)))
          \<and> (\<forall>a. dict_get (m_actions m) (ns_action ns) = Some a \<longrightarrow>
               (ns_args ns \<noteq> [] \<and> args a \<noteq> Some True \<longrightarrow>
                  Args_init config ns =
                    ([Print_error (ArgsNotAllowed (ns_action ns) (Some mname) (length (ns_args ns)))],
                     Inl (SysExit 1)))
             \<and> (ns_args ns = [] \<or> args a = Some True \<longrightarrow>
                  Args_init config ns =
                    ([], Inr \<lparr>sel_module = Some m, sel_actions = [a], sel_args = ns_args ns\<rparr>)))"
  proof (intro allI impI conjI)
    fix m
    assume "dict_get (modules config) mname = Some m"
      and "dict_get (m_actions m) (ns_action ns) = None"
    then show "Args_init config ns =
       ([Print_error (UnknownAction (ns_action ns) mname (keys (m_actions m)))], Inl (SysExit 1))"
      by (simp add: eq Args_module_def logger_error_def)
  next
    fix m a
    assume "dict_get (modules config) mname = Some m"
      and "dict_get (m_actions m) (ns_action ns) = Some a"
      and "ns_args ns \<noteq> [] \<and> args a \<noteq> Some True"
    then show "Args_init config ns =
       ([Print_error (ArgsNotAllowed (ns_action ns) (Some mname) (length (ns_args ns)))],
        Inl (SysExit 1))"
      by (simp add: eq Args_module_def logger_error_def truthy_eq)
  next
    fix m a
    assume "dict_get (modules config) mname = Some m"
      and "dict_get (m_actions m) (ns_action ns) = Some a"
      and "ns_args ns = [] \<or> args a = Some True"
    then show "Args_init config ns =
       ([], Inr \<lparr>sel_module = Some m, sel_actions = [a], sel_args = ns_args ns\<rparr>)"
      by (auto simp: eq Args_module_def truthy_eq)
  qed
  have c: "\<forall>evs oc. Args_init config ns = (evs, Inl oc) \<longrightarrow>
            oc = SysExit 1 \<and> \<not> list_ex is_spawn evs
            \<and> main w intr fuel config ns = Some (evs, oc, [])"
  proof (intro allI impI)
    fix evs oc
    assume r: "Args_init config ns = (evs, Inl oc)"
    then have "Args_module config ns mname = (evs, Inl oc)" by (simp add: eq)
    then have "oc = SysExit 1 \<and> \<not> list_ex is_spawn evs"
      by (rule Args_module_failure)
    with main_resolution_failure [OF r]
    show "oc = SysExit 1 \<and> \<not> list_ex is_spawn evs
            \<and> main w intr fuel config ns = Some (evs, oc, [])" by simp
  qed
  have d: "\<forall>evs sel. Args_init config ns = (evs, Inr sel) \<longrightarrow> length (sel_actions sel) = 1"
  proof (intro allI impI)
    fix evs sel
    assume "Args_init config ns = (evs, Inr sel)"
    then have "Args_module config ns mname = (evs, Inr sel)" by (simp add: eq)
    then show "length (sel_actions sel) = 1" by (rule Args_module_success)
  qed
  show ?thesis
    apply (rule conjI)
     apply (rule a)
    apply (rule conjI)
     apply (rule b)
    apply (rule conjI)
     apply (rule c)
    apply (rule d)
    done
qed

theorem C4_witness:
  "Args_init ex_config \<lparr>ns_module = Some ''deploy'', ns_action = ''build'', ns_args = []\<rparr>
     = ([Print_error (UnknownModule ''deploy'' [''api'', ''web''])], Inl (SysExit 1))
   \<and> main ex_world None 5 ex_config \<lparr>ns_module = Some ''deploy'', ns_action = ''build'', ns_args = []\<rparr>
     = Some ([Print_error (UnknownModule ''deploy'' [''api'', ''web''])], SysExit 1, [])"
proof -
  let ?ns = "\<lparr>ns_module = Some ''deploy'', ns_action = ''build'', ns_args = []\<rparr>"
  have none: "dict_get (modules ex_config) ''deploy'' = None"
    by (simp add: ex_config_def dict_get_def)
  have ks: "keys (modules ex_config) = [''api'', ''web'']"
    by (simp add: ex_config_def keys_def)
  have h1: "ns_module ?ns = Some ''deploy''" by simp
  have h2: "''deploy'' \<noteq> []" by simp
  note t = C4_module_qualified_resolution [OF h1 h2, of ex_config ex_world None 5]
  from t [THEN conjunct1, THEN mp, OF none] ks
  have r: "Args_init ex_config ?ns =
      ([Print_error (UnknownModule ''deploy'' [''api'', ''web''])], Inl (SysExit 1))"
    by simp
  from t [THEN conjunct2, THEN conjunct2, THEN conjunct1, THEN spec, THEN spec, THEN mp, OF r]
  have "main ex_world None 5 ex_config ?ns =
      Some ([Print_error (UnknownModule ''deploy'' [''api'', ''web''])], SysExit 1, [])"
    by (rule conjunct2 [THEN conjunct2])
  with r show ?thesis by (rule conjI)
qed

text \<open>
  The claim as stated fails for the empty module name: \<^verbatim>\<open>-m ""\<close> names a module
  that is not in the registry, yet resolution does not fail; the truthiness test sends it
  to the group branch, which selects both \<^verbatim>\<open>start\<close> actions.
\<close>

theorem C4_counterexample:
  "dict_get (modules ex_config) [] = None
   \<and> Args_init ex_config \<lparr>ns_module = Some [], ns_action = ''start'', ns_args = []\<rparr>
       = ([], Inr \<lparr>sel_module = None, sel_actions = [api_start, web_start], sel_args = []\<rparr>)"
proof -
  have alls: "all_actions ex_config = [(''start'', [api_start, web_start]), (''build'', [api_build])]"
    by (simp add: all_actions_def add_module_def add_action_def ex_config_def values_of_def
        api_module_def web_module_def dict_get_def)
  have none: "dict_get (modules ex_config) [] = None"
    by (simp add: ex_config_def dict_get_def)
  have "Args_init ex_config \<lparr>ns_module = Some [], ns_action = ''start'', ns_args = []\<rparr>
       = ([], Inr \<lparr>sel_module = None, sel_actions = [api_start, web_start], sel_args = []\<rparr>)"
    by (simp add: Args_init_def Args_group_def action_groups_def alls dict_get_def)
  with none show ?thesis by simp
qed

lemma accepting_none:
  "(\<not> list_ex (\<lambda>b. b) (actions_accepting_args acts)) = (\<forall>a \<in> set acts. args a \<noteq> Some True)"
  by (induction acts) (auto simp: actions_accepting_args_def truthy_eq)

lemma accepting_all:
  "list_all (\<lambda>b. b) (actions_accepting_args acts) = (\<forall>a \<in> set acts. args a = Some True)"
  by (induction acts) (auto simp: actions_accepting_args_def truthy_eq)

lemma sum_accepting:
  "sum_bools (actions_accepting_args acts) = length (filter (\<lambda>a. args a = Some True) acts)"
  by (induction acts) (auto simp: actions_accepting_args_def sum_bools_def truthy_eq)

lemma length_minus_accepting:
  "length acts - length (filter (\<lambda>a. args a = Some True) acts)
     = length (filter (\<lambda>a. args a \<noteq> Some True) acts)"
proof -
  have "length (filter (\<lambda>a. args a = Some True) acts)
        + length (filter (\<lambda>a. \<not> args a = Some True) acts) = length acts"
    by (rule sum_length_filter_compl)
  then show ?thesis by simp
qed

text \<open>
  Resolution of a group with extra arguments.  Without \<^verbatim>\<open>--module\<close>, for a name that
  is an action group and a non-empty list of extra arguments: when no action of the group
  has its \<^verbatim>\<open>args\<close> flag set, resolution prints the arguments-not-allowed error and
  exits with code 1; when some but not all have it set, resolution succeeds with the
  whole group and the arguments, after one warning that carries the number of actions
  whose flag is set, the size of the group and the number of actions whose flag is not
  set.  The numbers count flags; which commands the runner then extends is another
  matter.
\<close>

lemma group_arguments_resolution:
  assumes "ns_module ns = None"
    and "dict_get (action_groups config) (ns_action ns) = Some acts"
    and "ns_args ns \<noteq> []"
  shows "((\<forall>a \<in> set acts. args a \<noteq> Some True) \<longrightarrow>
            Args_init config ns =
              ([Print_error (ArgsNotAllowed (ns_action ns) None (length (ns_args ns)))],
               Inl (SysExit 1)))
       \<and> ((\<exists>a \<in> set acts. args a = Some True) \<and> (\<exists>a \<in> set acts. args a \<noteq> Some True) \<longrightarrow>
            Args_init config ns =
              ([Print_warn (ArgsPartlyIgnored (ns_action ns)
                   (length (filter (\<lambda>a. args a = Some True) acts))
                   (length acts)
                   (length (filter (\<lambda>a. args a \<noteq> Some True) acts)))],
               Inr \<lparr>sel_module = None, sel_actions = acts, sel_args = ns_args ns\<rparr>))"
proof (intro conjI impI)
  assume "\<forall>a \<in> set acts. args a \<noteq> Some True"
  then have "\<not> list_ex (\<lambda>b. b) (actions_accepting_args acts)"
    by (simp only: accepting_none)
  with assms show "Args_init config ns =
      ([Print_error (ArgsNotAllowed (ns_action ns) None (length (ns_args ns)))], Inl (SysExit 1))"
    by (simp add: Args_init_unqualified Args_group_def logger_error_def)
next
  assume h: "(\<exists>a \<in> set acts. args a = Some True) \<and> (\<exists>a \<in> set acts. args a \<noteq> Some True)"
  then have some: "list_ex (\<lambda>b. b) (actions_accepting_args acts)"
    using accepting_none [of acts] by blast
  from h have notall: "\<not> list_all (\<lambda>b. b) (actions_accepting_args acts)"
    using accepting_all [of acts] by blast
  from assms some notall show "Args_init config ns =
      ([Print_warn (ArgsPartlyIgnored (ns_action ns)
           (length (filter (\<lambda>a. args a = Some True) acts))
           (length acts)
           (length (filter (\<lambda>a. args a \<noteq> Some True) acts)))],
       Inr \<lparr>sel_module = None, sel_actions = acts, sel_args = ns_args ns\<rparr>)"
    by (simp add: Args_init_unqualified Args_group_def logger_warn_def sum_accepting
        length_minus_accepting)
qed

lemma all_actions_ex_config:
  "all_actions ex_config = [(''start'', [api_start, web_start]), (''build'', [api_build])]"
  by (simp add: all_actions_def add_module_def add_action_def ex_config_def values_of_def
      api_module_def web_module_def dict_get_def)

lemma start_group_ex_config:
  "dict_get (action_groups ex_config) ''start'' = Some [api_start, web_start]"
  by (simp add: action_groups_def all_actions_ex_config dict_get_def)

lemma start_group_ex_config_noargs:
  "dict_get (action_groups ex_config_noargs) ''start'' = Some [api_start, web_start_noargs]"
  by (simp add: action_groups_def all_actions_def add_module_def add_action_def
      ex_config_noargs_def values_of_def api_module_def web_module_def dict_get_def)

lemma group_arguments_examples:
  "Args_init ex_config \<lparr>ns_module = None, ns_action = ''start'', ns_args = [''--verbose'']\<rparr>
     = ([Print_warn (ArgsPartlyIgnored ''start'' 1 2 1)],
        Inr \<lparr>sel_module = None, sel_actions = [api_start, web_start], sel_args = [''--verbose'']\<rparr>)
   \<and> Args_init ex_config_noargs
        \<lparr>ns_module = None, ns_action = ''start'', ns_args = [''--verbose'']\<rparr>
     = ([Print_error (ArgsNotAllowed ''start'' None 1)], Inl (SysExit 1))"
proof -
  let ?ns = "\<lparr>ns_module = None, ns_action = ''start'', ns_args = [''--verbose'']\<rparr>"
  have h1: "ns_module ?ns = None" by simp
  have h2: "dict_get (action_groups ex_config) (ns_action ?ns) = Some [api_start, web_start]"
    by (simp add: start_group_ex_config)
  have h3: "ns_args ?ns \<noteq> []" by simp
  have mixed: "(\<exists>a \<in> set [api_start, web_start]. args a = Some True)
             \<and> (\<exists>a \<in> set [api_start, web_start]. args a \<noteq> Some True)"
    by (simp add: api_start_def web_start_def)
  have cnt: "length (filter (\<lambda>a. args a = Some True) [api_start, web_start]) = 1
           \<and> length (filter (\<lambda>a. args a \<noteq> Some True) [api_start, web_start]) = 1"
    by (simp add: api_start_def web_start_def)
  from group_arguments_resolution [OF h1 h2 h3, THEN conjunct2, THEN mp, OF mixed] cnt
  have first: "Args_init ex_config ?ns
     = ([Print_warn (ArgsPartlyIgnored ''start'' 1 2 1)],
        Inr \<lparr>sel_module = None, sel_actions = [api_start, web_start], sel_args = [''--verbose'']\<rparr>)"
    by simp
  have h2': "dict_get (action_groups ex_config_noargs) (ns_action ?ns)
      = Some [api_start, web_start_noargs]"
    by (simp add: start_group_ex_config_noargs)
  have nobody: "\<forall>a \<in> set [api_start, web_start_noargs]. args a \<noteq> Some True"
    by (simp add: api_start_def web_start_def web_start_noargs_def)
  from group_arguments_resolution [OF h1 h2' h3, THEN conjunct1, THEN mp, OF nobody]
  have second: "Args_init ex_config_noargs ?ns
     = ([Print_error (ArgsNotAllowed ''start'' None 1)], Inl (SysExit 1))"
    by simp
  from first second show ?thesis by (rule conjI)
qed

text \<open>
  Claim C5.  The failure half of the claim holds (lemma \<open>group_arguments_resolution\<close>).
  The warning half does not hold of the program as a whole: for the mixed group
  \<^verbatim>\<open>start\<close> the warning announces that 1 of the 2 actions gets the arguments and that
  they are ignored for the other one, but the number in it is the count of \<^verbatim>\<open>args\<close>
  flags, and the run that follows hands \<^verbatim>\<open>--verbose\<close> to both commands.  The number
  of actions that receive the arguments is 2, not the 1 the warning reports.
\<close>

theorem C5_warning_undercounts_receivers:
  "Args_init ex_config ns_start_verbose =
     ([Print_warn (ArgsPartlyIgnored ''start'' 1 2 1)],
      Inr \<lparr>sel_module = None, sel_actions = [api_start, web_start], sel_args = [''--verbose'']\<rparr>)
   \<and> map_option (\<lambda>r. spawned_commands (fst r)) (main ex_world None 5 ex_config ns_start_verbose) =
       Some [[''uvicorn'', ''app'', ''--verbose''], [''npm'', ''start'', ''--verbose'']]"
proof (rule conjI)
  show "Args_init ex_config ns_start_verbose =
     ([Print_warn (ArgsPartlyIgnored ''start'' 1 2 1)],
      Inr \<lparr>sel_module = None, sel_actions = [api_start, web_start], sel_args = [''--verbose'']\<rparr>)"
    by code_simp
  show "map_option (\<lambda>r. spawned_commands (fst r)) (main ex_world None 5 ex_config ns_start_verbose) =
       Some [[''uvicorn'', ''app'', ''--verbose''], [''npm'', ''start'', ''--verbose'']]"
    by code_simp
qed

section \<open>The runner\<close>

lemma list_all_truthy_bg:
  "list_all truthy (map bg acts) = (\<forall>a \<in> set acts. bg a = Some True)"
  by (induction acts) (auto simp: truthy_eq)

lemma run_each_no_popen:
  "run_each w intr t xs acts = (evs, oc) \<Longrightarrow> \<not> list_ex is_popen evs"
proof (induction acts arbitrary: t evs oc)
  case Nil
  then show ?case by simp
next
  case (Cons a acts)
  show ?case
  proof (cases "intr = Some t")
    case True
    with Cons.prems show ?thesis by simp
  next
    case False
    note ni = this
    show ?thesis
    proof (cases "shlex_split w (cmd a)")
      case None
      with Cons.prems ni show ?thesis by (auto simp: logger_info_def)
    next
      case (Some toks)
      note toks = this
      show ?thesis
      proof (cases "subprocess_run w (toks @ xs) (work_dir a)")
        case (NotFound s f)
        with Cons.prems ni toks show ?thesis
          by (auto simp: logger_info_def logger_error_def)
      next
        case (Started rc)
        obtain evs' oc' where rest: "run_each w intr (Suc t) xs acts = (evs', oc')"
          by (cases "run_each w intr (Suc t) xs acts")
        from Cons.IH [OF rest] have "\<not> list_ex is_popen evs'" .
        with Cons.prems ni toks Started rest show ?thesis
          by (auto simp: logger_info_def)
      qed
    qed
  qed
qed

lemma run_in_series_trace:
  assumes "run_in_series w intr r = (evs, oc, ps)"
  shows "\<not> list_ex is_popen evs \<and> hd evs = Print_info RunningInSeries \<and> ps = processes r"
proof -
  obtain evs' oc' where e: "run_each w intr 0 (action_args r) (r_actions r) = (evs', oc')"
    by (cases "run_each w intr 0 (action_args r) (r_actions r)")
  from run_each_no_popen [OF e] have "\<not> list_ex is_popen evs'" .
  with assms e show ?thesis
    by (cases oc') (auto simp: run_in_series_def logger_info_def)
qed

lemma start_all_no_run:
  "start_all w intr t xs acts ps = (evs, oc, ps') \<Longrightarrow> \<not> list_ex is_subprocess_run evs"
proof (induction acts arbitrary: t ps evs oc ps')
  case Nil
  then show ?case by simp
next
  case (Cons a acts)
  show ?case
  proof (cases "intr = Some t")
    case True
    with Cons.prems show ?thesis by simp
  next
    case False
    note ni = this
    show ?thesis
    proof (cases "shlex_split w (cmd a)")
      case None
      with Cons.prems ni show ?thesis by (auto simp: logger_info_def)
    next
      case (Some toks)
      note toks = this
      show ?thesis
      proof (cases "popen w (toks @ xs) (work_dir a)")
        case (NotFound s f)
        with Cons.prems ni toks show ?thesis
          by (auto simp: logger_info_def logger_error_def)
      next
        case (Started p)
        obtain evs' oc' ps'' where
          rest: "start_all w intr (Suc t) xs acts (dict_set ps a p) = (evs', oc', ps'')"
          by (cases "start_all w intr (Suc t) xs acts (dict_set ps a p)")
        from Cons.IH [OF rest] have "\<not> list_ex is_subprocess_run evs'" .
        with Cons.prems ni toks Started rest show ?thesis
          by (auto simp: logger_info_def)
      qed
    qed
  qed
qed

lemma poll_all_no_run:
  "poll_all snap ps = (evs, ps') \<Longrightarrow> \<not> list_ex is_subprocess_run evs"
proof (induction snap arbitrary: ps evs ps')
  case Nil
  then show ?case by simp
next
  case (Cons e snap)
  obtain a p where e: "e = (a, p)" by (cases e)
  obtain rc p' where pl: "poll p = (rc, p')" by (cases "poll p")
  show ?case
  proof (cases rc)
    case None
    with Cons.prems e pl have "poll_all snap (dict_set ps a p') = (evs, ps')" by simp
    then show ?thesis by (rule Cons.IH)
  next
    case (Some c)
    obtain evs1 ps1 where rest: "poll_all snap (dict_del ps a) = (evs1, ps1)"
      by (cases "poll_all snap (dict_del ps a)")
    from Cons.IH [OF rest] have "\<not> list_ex is_subprocess_run evs1" .
    with Cons.prems e pl Some rest show ?thesis by (auto simp: logger_info_def)
  qed
qed

lemma poll_loop_no_run:
  "poll_loop fuel intr t ps = Some (evs, oc, ps') \<Longrightarrow> \<not> list_ex is_subprocess_run evs"
proof (induction fuel intr t ps arbitrary: evs oc ps' rule: poll_loop.induct)
  case (1 fuel intr t)
  then show ?case by simp
next
  case (2 intr t e ps)
  then show ?case by simp
next
  case (3 fuel intr t e ps)
  show ?case
  proof (cases "intr = Some t")
    case True
    with "3.prems" show ?thesis by simp
  next
    case False
    obtain evs1 ps1 where pa: "poll_all (e # ps) (e # ps) = (evs1, ps1)"
      by (cases "poll_all (e # ps) (e # ps)")
    from poll_all_no_run [OF pa] have n1: "\<not> list_ex is_subprocess_run evs1" .
    from "3.prems" False pa obtain evs2 where
      rest: "poll_loop fuel intr (Suc t) ps1 = Some (evs2, oc, ps')"
      and evs: "evs = evs1 @ (if ps1 \<noteq> [] then [Sleep] else []) @ evs2"
      by (auto split: option.splits)
    from "3.IH" [OF False pa [symmetric] rest] have "\<not> list_ex is_subprocess_run evs2" .
    with n1 evs show ?thesis by auto
  qed
qed

lemma kill_one_normal: "snd (kill_one a p) = Normal"
  by (simp add: kill_one_def terminate_and_wait_def logger_error_def split: wait_result.splits)

lemma kill_one_no_run: "\<not> list_ex is_subprocess_run (fst (kill_one a p))"
  by (simp add: kill_one_def terminate_and_wait_def logger_error_def logger_info_def
      split: wait_result.splits)

lemma kill_each_unfold:
  "kill_each ((a, p) # rest) = (fst (kill_one a p) @ fst (kill_each rest), snd (kill_each rest))"
proof -
  obtain evs where k: "kill_one a p = (evs, Normal)"
    using kill_one_normal [of a p] by (cases "kill_one a p") simp
  then show ?thesis by (simp add: case_prod_unfold)
qed

lemma kill_each_normal: "snd (kill_each ps) = Normal"
proof (induction ps)
  case Nil
  then show ?case by simp
next
  case (Cons e ps)
  then show ?case by (cases e) (simp add: kill_each_unfold del: kill_each.simps)
qed

lemma kill_each_no_run: "\<not> list_ex is_subprocess_run (fst (kill_each ps))"
proof (induction ps)
  case Nil
  then show ?case by simp
next
  case (Cons e ps)
  then show ?case by (cases e) (simp add: kill_each_unfold kill_one_no_run del: kill_each.simps)
qed

lemma kill_all_processes_eq: "kill_all_processes ps = (fst (kill_each ps), Normal, [])"
proof -
  obtain evs where "kill_each ps = (evs, Normal)"
    using kill_each_normal [of ps] by (cases "kill_each ps") simp
  then show ?thesis by (simp add: kill_all_processes_def)
qed

lemma try_block_no_run:
  assumes "try_block w intr fuel r = Some (evs, oc, ps)"
  shows "\<not> list_ex is_subprocess_run evs"
proof -
  obtain evs1 oc1 ps1 where
    st: "start_all w intr 0 (action_args r) (r_actions r) (processes r) = (evs1, oc1, ps1)"
    by (cases "start_all w intr 0 (action_args r) (r_actions r) (processes r)")
  from start_all_no_run [OF st] have n1: "\<not> list_ex is_subprocess_run evs1" .
  show ?thesis
  proof (cases "oc1 = Normal")
    case False
    with assms st have "evs = evs1" by (cases oc1) (auto simp: try_block_def)
    with n1 show ?thesis by simp
  next
    case True
    with assms st obtain evs2 oc2 ps2 where
      pl: "poll_loop fuel intr (length (r_actions r)) ps1 = Some (evs2, oc2, ps2)"
      by (auto simp: try_block_def split: option.splits)
    from poll_loop_no_run [OF pl] have n2: "\<not> list_ex is_subprocess_run evs2" .
    from assms st True pl n1 n2 show ?thesis
      by (cases oc2) (auto simp: try_block_def logger_info_def)
  qed
qed

lemma run_simultaneously_interrupted:
  assumes "try_block w intr fuel r = Some (evs, Raised KeyboardInterrupt, ps)"
  shows "run_simultaneously w intr fuel r =
           Some (Print_info RunningSimultaneously # evs
                   @ [Print_blank, Print_warn ReceivedInterrupt] @ fst (kill_each ps),
                 SysExit 1, [])"
  using assms
  by (simp add: run_simultaneously_def kill_all_processes_eq logger_info_def logger_warn_def)

lemma run_simultaneously_other:
  assumes "try_block w intr fuel r = Some (evs, oc, ps)"
    and "oc \<noteq> Raised KeyboardInterrupt"
  shows "run_simultaneously w intr fuel r = Some (Print_info RunningSimultaneously # evs, oc, ps)"
proof (cases oc)
  case Normal
  with assms show ?thesis by (simp add: run_simultaneously_def logger_info_def)
next
  case (SysExit c)
  with assms show ?thesis by (simp add: run_simultaneously_def logger_info_def)
next
  case (Raised x)
  with assms show ?thesis by (cases x) (simp_all add: run_simultaneously_def logger_info_def)
qed

lemma run_simultaneously_trace:
  assumes "run_simultaneously w intr fuel r = Some (evs, oc, ps)"
  shows "\<not> list_ex is_subprocess_run evs \<and> hd evs = Print_info RunningSimultaneously"
proof -
  from assms obtain evs1 oc1 ps1 where tb: "try_block w intr fuel r = Some (evs1, oc1, ps1)"
    by (auto simp: run_simultaneously_def split: option.splits)
  from try_block_no_run [OF tb] have n1: "\<not> list_ex is_subprocess_run evs1" .
  show ?thesis
  proof (cases "oc1 = Raised KeyboardInterrupt")
    case True
    with tb have "run_simultaneously w intr fuel r =
           Some (Print_info RunningSimultaneously # evs1
                   @ [Print_blank, Print_warn ReceivedInterrupt] @ fst (kill_each ps1),
                 SysExit 1, [])"
      by (simp add: run_simultaneously_interrupted)
    with assms n1 kill_each_no_run [of ps1] show ?thesis by auto
  next
    case False
    from run_simultaneously_other [OF tb False] assms n1 show ?thesis by auto
  qed
qed

text \<open>
  Claim C3.  The runner takes the concurrent branch exactly when the \<^verbatim>\<open>bg\<close> flag of
  every selected action is true.  If one flag is false or unset, the whole run is the
  sequential branch: it announces the series and starts no child with \<^verbatim>\<open>Popen\<close>.  If
  all flags are true, it announces the simultaneous run and never calls the blocking
  \<^verbatim>\<open>subprocess.run\<close>.
\<close>

theorem C3_mode_is_conjunction_of_bg_flags:
  "can_run_simultaneously (ActionRunner_init sel) = (\<forall>a \<in> set (sel_actions sel). bg a = Some True)
   \<and> ((\<forall>a \<in> set (sel_actions sel). bg a = Some True) \<longrightarrow>
        run w intr fuel (ActionRunner_init sel)
          = run_simultaneously w intr fuel (ActionRunner_init sel)
        \<and> (\<forall>evs oc ps. run w intr fuel (ActionRunner_init sel) = Some (evs, oc, ps) \<longrightarrow>
             hd evs = Print_info RunningSimultaneously \<and> \<not> list_ex is_subprocess_run evs))
   \<and> ((\<exists>a \<in> set (sel_actions sel). bg a \<noteq> Some True) \<longrightarrow>
        run w intr fuel (ActionRunner_init sel)
          = Some (run_in_series w intr (ActionRunner_init sel))
        \<and> (\<forall>evs oc ps. run w intr fuel (ActionRunner_init sel) = Some (evs, oc, ps) \<longrightarrow>
             hd evs = Print_info RunningInSeries \<and> \<not> list_ex is_popen evs))"
proof -
  let ?r = "ActionRunner_init sel"
  have mode: "can_run_simultaneously ?r = (\<forall>a \<in> set (sel_actions sel). bg a = Some True)"
    by (simp add: ActionRunner_init_def list_all_truthy_bg)
  have conc: "(\<forall>a \<in> set (sel_actions sel). bg a = Some True) \<longrightarrow>
        run w intr fuel ?r = run_simultaneously w intr fuel ?r
        \<and> (\<forall>evs oc ps. run w intr fuel ?r = Some (evs, oc, ps) \<longrightarrow>
             hd evs = Print_info RunningSimultaneously \<and> \<not> list_ex is_subprocess_run evs)"
  proof
    assume "\<forall>a \<in> set (sel_actions sel). bg a = Some True"
    with mode have eq: "run w intr fuel ?r = run_simultaneously w intr fuel ?r"
      by (simp add: run_def)
    show "run w intr fuel ?r = run_simultaneously w intr fuel ?r
        \<and> (\<forall>evs oc ps. run w intr fuel ?r = Some (evs, oc, ps) \<longrightarrow>
             hd evs = Print_info RunningSimultaneously \<and> \<not> list_ex is_subprocess_run evs)"
      using eq run_simultaneously_trace [of w intr fuel ?r] by simp
  qed
  have seq: "(\<exists>a \<in> set (sel_actions sel). bg a \<noteq> Some True) \<longrightarrow>
        run w intr fuel ?r = Some (run_in_series w intr ?r)
        \<and> (\<forall>evs oc ps. run w intr fuel ?r = Some (evs, oc, ps) \<longrightarrow>
             hd evs = Print_info RunningInSeries \<and> \<not> list_ex is_popen evs)"
  proof
    assume "\<exists>a \<in> set (sel_actions sel). bg a \<noteq> Some True"
    with mode have eq: "run w intr fuel ?r = Some (run_in_series w intr ?r)"
      by (auto simp: run_def)
    show "run w intr fuel ?r = Some (run_in_series w intr ?r)
        \<and> (\<forall>evs oc ps. run w intr fuel ?r = Some (evs, oc, ps) \<longrightarrow>
             hd evs = Print_info RunningInSeries \<and> \<not> list_ex is_popen evs)"
      using eq run_in_series_trace [of w intr ?r] by simp
  qed
  from mode conc seq show ?thesis by (intro conjI)
qed

theorem C3_witness:
  "\<not> can_run_simultaneously (ActionRunner_init sel_mixed)
   \<and> run ex_world None 5 (ActionRunner_init sel_mixed)
       = Some (run_in_series ex_world None (ActionRunner_init sel_mixed))
   \<and> can_run_simultaneously (ActionRunner_init sel_bg)
   \<and> run ex_world None 5 (ActionRunner_init sel_bg)
       = run_simultaneously ex_world None 5 (ActionRunner_init sel_bg)"
proof -
  have mixed: "\<exists>a \<in> set (sel_actions sel_mixed). bg a \<noteq> Some True"
    by (simp add: sel_mixed_def api_start_def)
  have allbg: "\<forall>a \<in> set (sel_actions sel_bg). bg a = Some True"
    by (simp add: sel_bg_def api_start_bg_def web_start_def)
  note m = C3_mode_is_conjunction_of_bg_flags [of sel_mixed ex_world None 5]
  note b = C3_mode_is_conjunction_of_bg_flags [of sel_bg ex_world None 5]
  from m [THEN conjunct1] mixed
  have 1: "\<not> can_run_simultaneously (ActionRunner_init sel_mixed)" by blast
  from m [THEN conjunct2, THEN conjunct2, THEN mp, OF mixed, THEN conjunct1]
  have 2: "run ex_world None 5 (ActionRunner_init sel_mixed)
       = Some (run_in_series ex_world None (ActionRunner_init sel_mixed))" .
  from b [THEN conjunct1] allbg
  have 3: "can_run_simultaneously (ActionRunner_init sel_bg)" by blast
  from b [THEN conjunct2, THEN conjunct1, THEN mp, OF allbg, THEN conjunct1]
  have 4: "run ex_world None 5 (ActionRunner_init sel_bg)
       = run_simultaneously ex_world None 5 (ActionRunner_init sel_bg)" .
  from 1 2 3 4 show ?thesis by (intro conjI)
qed

lemma kill_each_concat:
  "fst (kill_each ps) = concat (map (\<lambda>ap. fst (kill_one (fst ap) (snd ap))) ps)"
proof (induction ps)
  case Nil
  then show ?case by simp
next
  case (Cons e ps)
  then show ?case by (cases e) (simp add: kill_each_unfold del: kill_each.simps)
qed

lemma kill_one_calls:
  "filter is_call (fst (kill_one a p)) =
     (if terminate_raises p then [Terminate (pid p)]
      else if grace_wait p \<noteq> TimeoutExpired then [Terminate (pid p), Wait (pid p) (Some 3)]
      else if kill_raises p then [Terminate (pid p), Wait (pid p) (Some 3), Kill (pid p)]
      else [Terminate (pid p), Wait (pid p) (Some 3), Kill (pid p), Wait (pid p) None])"
  by (cases "grace_wait p")
    (simp_all add: kill_one_def terminate_and_wait_def logger_error_def logger_info_def
      grace_period_def)

lemma kill_one_report:
  "(Print_error (KillError a) \<in> set (fst (kill_one a p))) = teardown_fails p
   \<and> (Print_info (Killed a (pid p)) \<in> set (fst (kill_one a p))) = (\<not> teardown_fails p)"
  by (cases "grace_wait p")
    (auto simp: kill_one_def terminate_and_wait_def logger_error_def logger_info_def
      teardown_fails_def)

lemma terminated_append: "terminated (xs @ ys) = terminated xs @ terminated ys"
  by (induction xs rule: terminated.induct) simp_all

lemma terminated_kill_one: "terminated (fst (kill_one a p)) = [pid p]"
  by (cases "grace_wait p")
    (simp_all add: kill_one_def terminate_and_wait_def logger_error_def logger_info_def)

lemma terminated_kill_each: "terminated (fst (kill_each ps)) = map (\<lambda>ap. pid (snd ap)) ps"
proof (induction ps)
  case Nil
  then show ?case by simp
next
  case (Cons e ps)
  then show ?case
    by (cases e)
      (simp add: kill_each_unfold terminated_append terminated_kill_one del: kill_each.simps)
qed

lemma start_all_normal_ticks:
  "start_all w (Some k) t xs acts ps = (evs, Normal, ps') \<Longrightarrow> k < t \<or> t + length acts \<le> k"
proof (induction acts arbitrary: t ps evs ps')
  case Nil
  then show ?case by auto
next
  case (Cons a acts)
  from Cons.prems have ni: "k \<noteq> t" by (auto split: if_splits)
  from Cons.prems ni obtain toks where toks: "shlex_split w (cmd a) = Some toks"
    by (cases "shlex_split w (cmd a)") auto
  from Cons.prems ni toks obtain p where p: "popen w (toks @ xs) (work_dir a) = Started p"
    by (cases "popen w (toks @ xs) (work_dir a)") (auto simp: logger_error_def)
  from Cons.prems ni toks p obtain evs' where
    "start_all w (Some k) (Suc t) xs acts (dict_set ps a p) = (evs', Normal, ps')"
    by (auto split: prod.splits)
  from Cons.IH [OF this] ni show ?case by auto
qed

lemma poll_loop_returns:
  "t \<le> k \<Longrightarrow> k - t < fuel \<Longrightarrow> \<exists>res. poll_loop fuel (Some k) t ps = Some res"
proof (induction fuel arbitrary: t ps)
  case 0
  then show ?case by simp
next
  case (Suc fuel)
  show ?case
  proof (cases ps)
    case Nil
    then show ?thesis by simp
  next
    case (Cons e ps0)
    show ?thesis
    proof (cases "k = t")
      case True
      with Cons show ?thesis by simp
    next
      case False
      obtain evs1 ps1 where pa: "poll_all (e # ps0) (e # ps0) = (evs1, ps1)"
        by (cases "poll_all (e # ps0) (e # ps0)")
      from False Suc.prems have "Suc t \<le> k" and "k - Suc t < fuel" by auto
      from Suc.IH [OF this] obtain res where "poll_loop fuel (Some k) (Suc t) ps1 = Some res"
        by blast
      with Cons False pa show ?thesis by (cases res) auto
    qed
  qed
qed

lemma try_block_returns:
  assumes "k < fuel"
  shows "\<exists>res. try_block w (Some k) fuel r = Some res"
proof -
  obtain evs1 oc1 ps1 where
    st: "start_all w (Some k) 0 (action_args r) (r_actions r) (processes r) = (evs1, oc1, ps1)"
    by (cases "start_all w (Some k) 0 (action_args r) (r_actions r) (processes r)")
  show ?thesis
  proof (cases "oc1 = Normal")
    case False
    with st show ?thesis by (cases oc1) (auto simp: try_block_def)
  next
    case True
    with start_all_normal_ticks [of w k 0] st have "length (r_actions r) \<le> k" by auto
    moreover from this assms have "k - length (r_actions r) < fuel" by arith
    ultimately obtain evs2 oc2 ps2 where
      "poll_loop fuel (Some k) (length (r_actions r)) ps1 = Some (evs2, oc2, ps2)"
      using poll_loop_returns [of "length (r_actions r)" k fuel ps1] by (metis prod_cases3)
    with st True show ?thesis by (cases oc2) (auto simp: try_block_def)
  qed
qed

lemma run_simultaneously_returns:
  assumes "k < fuel"
  shows "\<exists>res. run_simultaneously w (Some k) fuel r = Some res"
proof -
  from try_block_returns [OF assms] obtain evs oc ps where
    tb: "try_block w (Some k) fuel r = Some (evs, oc, ps)" by (metis prod_cases3)
  show ?thesis
  proof (cases "oc = Raised KeyboardInterrupt")
    case True
    with tb run_simultaneously_interrupted [of w "Some k" fuel r evs ps] show ?thesis by simp
  next
    case False
    from run_simultaneously_other [OF tb False] show ?thesis by simp
  qed
qed

text \<open>
  Claim C10.  Teardown walks over the live table.  Each process is first asked to
  terminate, then waited for with the timeout of 3 seconds; only when that wait times out
  it is killed and waited for without a timeout.  Every entry of the table is asked to
  terminate, in order, whatever happened to the entries before it; a step that raises is
  reported by an error line that does not exit, and teardown itself always returns
  normally with the table cleared.  When a \<^verbatim>\<open>KeyboardInterrupt\<close> reaches the
  \<^verbatim>\<open>try\<close> block of the concurrent branch, the run is the trace so far, the interrupt
  warning and the teardown of the live table, and it ends with exit code 1 and an empty
  table; with an interrupt due at round \<open>k\<close>, fuel above \<open>k\<close> is enough for the run to
  end.
\<close>

theorem C10_teardown_and_interrupt:
  "kill_all_processes ps = (fst (kill_each ps), Normal, [])
   \<and> fst (kill_each ps) = concat (map (\<lambda>ap. fst (kill_one (fst ap) (snd ap))) ps)
   \<and> terminated (fst (kill_each ps)) = map (\<lambda>ap. pid (snd ap)) ps
   \<and> filter is_call (fst (kill_one a p)) =
       (if terminate_raises p then [Terminate (pid p)]
        else if grace_wait p \<noteq> TimeoutExpired then [Terminate (pid p), Wait (pid p) (Some 3)]
        else if kill_raises p then [Terminate (pid p), Wait (pid p) (Some 3), Kill (pid p)]
        else [Terminate (pid p), Wait (pid p) (Some 3), Kill (pid p), Wait (pid p) None])
   \<and> snd (kill_one a p) = Normal
   \<and> (Print_error (KillError a) \<in> set (fst (kill_one a p))) = teardown_fails p
   \<and> (try_block w intr fuel r = Some (evs, Raised KeyboardInterrupt, live) \<longrightarrow>
        run_simultaneously w intr fuel r =
          Some (Print_info RunningSimultaneously # evs
                  @ [Print_blank, Print_warn ReceivedInterrupt] @ fst (kill_each live),
                SysExit 1, []))
   \<and> (k < fuel \<longrightarrow> (\<exists>res. run_simultaneously w (Some k) fuel r = Some res))"
proof (intro conjI impI)
  show "kill_all_processes ps = (fst (kill_each ps), Normal, [])"
    by (rule kill_all_processes_eq)
  show "fst (kill_each ps) = concat (map (\<lambda>ap. fst (kill_one (fst ap) (snd ap))) ps)"
    by (rule kill_each_concat)
  show "terminated (fst (kill_each ps)) = map (\<lambda>ap. pid (snd ap)) ps"
    by (rule terminated_kill_each)
  show "filter is_call (fst (kill_one a p)) =
       (if terminate_raises p then [Terminate (pid p)]
        else if grace_wait p \<noteq> TimeoutExpired then [Terminate (pid p), Wait (pid p) (Some 3)]
        else if kill_raises p then [Terminate (pid p), Wait (pid p) (Some 3), Kill (pid p)]
        else [Terminate (pid p), Wait (pid p) (Some 3), Kill (pid p), Wait (pid p) None])"
    by (rule kill_one_calls)
  show "snd (kill_one a p) = Normal"
    by (rule kill_one_normal)
  show "(Print_error (KillError a) \<in> set (fst (kill_one a p))) = teardown_fails p"
    by (rule kill_one_report [THEN conjunct1])
next
  assume "try_block w intr fuel r = Some (evs, Raised KeyboardInterrupt, live)"
  then show "run_simultaneously w intr fuel r =
          Some (Print_info RunningSimultaneously # evs
                  @ [Print_blank, Print_warn ReceivedInterrupt] @ fst (kill_each live),
                SysExit 1, [])"
    by (rule run_simultaneously_interrupted)
next
  assume "k < fuel"
  then show "\<exists>res. run_simultaneously w (Some k) fuel r = Some res"
    by (rule run_simultaneously_returns)
qed

theorem C10_witness:
  "run_simultaneously ex_world (Some 3) 5 (ActionRunner_init sel_bg) =
     Some ([Print_info RunningSimultaneously,
            Print_info (RunningAction api_start_bg),
            Popen [''uvicorn'', ''app''] (Path Root1 [''repo'', ''api'']),
            Print_info (RunningAction web_start),
            Popen [''npm'', ''start''] (Path Root1 [''repo'', ''web'']),
            Sleep, Print_blank, Print_warn ReceivedInterrupt,
            Terminate 10, Wait 10 (Some 3), Print_info (Killed api_start_bg 10),
            Terminate 8, Wait 8 (Some 3), Print_info (Killed web_start 8)],
           SysExit 1, [])
   \<and> (\<exists>res. run_simultaneously ex_world (Some 3) 5 (ActionRunner_init sel_bg) = Some res)
   \<and> filter is_call (fst (kill_one web_start stubborn_proc)) =
        [Terminate 7, Wait 7 (Some 3), Kill 7, Wait 7 None]
   \<and> Print_error (KillError api_start) \<in> set (fst (kill_one api_start broken_proc))"
proof -
  let ?live = "[(api_start_bg, (ex_proc 10)\<lparr>polls_left := Some 1\<rparr>),
                (web_start, (ex_proc 8)\<lparr>polls_left := Some 1\<rparr>)]"
  let ?evs = "[Print_info (RunningAction api_start_bg),
            Popen [''uvicorn'', ''app''] (Path Root1 [''repo'', ''api'']),
            Print_info (RunningAction web_start),
            Popen [''npm'', ''start''] (Path Root1 [''repo'', ''web'']),
            Sleep]"
  have tb: "try_block ex_world (Some 3) 5 (ActionRunner_init sel_bg)
      = Some (?evs, Raised KeyboardInterrupt, ?live)"
    by code_simp
  have ke: "fst (kill_each ?live) =
      [Terminate 10, Wait 10 (Some 3), Print_info (Killed api_start_bg 10),
       Terminate 8, Wait 8 (Some 3), Print_info (Killed web_start 8)]"
    by code_simp
  have lt: "(3::nat) < 5" by simp
  have stubborn: "\<not> terminate_raises stubborn_proc \<and> grace_wait stubborn_proc = TimeoutExpired
      \<and> \<not> kill_raises stubborn_proc \<and> pid stubborn_proc = 7"
    by (simp add: stubborn_proc_def)
  have broken: "teardown_fails broken_proc"
    by (simp add: teardown_fails_def broken_proc_def)
  note t1 = C10_teardown_and_interrupt [where w = ex_world and intr = "Some 3" and fuel = 5
      and r = "ActionRunner_init sel_bg" and evs = ?evs and live = ?live and k = 3
      and a = web_start and p = stubborn_proc]
  note t2 = C10_teardown_and_interrupt [where a = api_start and p = broken_proc]
  from t1 [THEN conjunct2, THEN conjunct2, THEN conjunct2, THEN conjunct2, THEN conjunct2,
      THEN conjunct2, THEN conjunct1, THEN mp, OF tb] ke
  have 1: "run_simultaneously ex_world (Some 3) 5 (ActionRunner_init sel_bg) =
     Some ([Print_info RunningSimultaneously,
            Print_info (RunningAction api_start_bg),
            Popen [''uvicorn'', ''app''] (Path Root1 [''repo'', ''api'']),
            Print_info (RunningAction web_start),
            Popen [''npm'', ''start''] (Path Root1 [''repo'', ''web'']),
            Sleep, Print_blank, Print_warn ReceivedInterrupt,
            Terminate 10, Wait 10 (Some 3), Print_info (Killed api_start_bg 10),
            Terminate 8, Wait 8 (Some 3), Print_info (Killed web_start 8)],
           SysExit 1, [])"
    by simp
  from t1 [THEN conjunct2, THEN conjunct2, THEN conjunct2, THEN conjunct2, THEN conjunct2,
      THEN conjunct2, THEN conjunct2, THEN mp, OF lt]
  have 2: "\<exists>res. run_simultaneously ex_world (Some 3) 5 (ActionRunner_init sel_bg) = Some res" .
  from t1 [THEN conjunct2, THEN conjunct2, THEN conjunct2, THEN conjunct1] stubborn
  have 3: "filter is_call (fst (kill_one web_start stubborn_proc)) =
        [Terminate 7, Wait 7 (Some 3), Kill 7, Wait 7 None]"
    by simp
  from t2 [THEN conjunct2, THEN conjunct2, THEN conjunct2, THEN conjunct2, THEN conjunct2,
      THEN conjunct1] broken
  have 4: "Print_error (KillError api_start) \<in> set (fst (kill_one api_start broken_proc))"
    by simp
  from 1 2 3 4 show ?thesis by (intro conjI)
qed

text \<open>
  Claim C1.  The claim does not hold of the runner: both branches build the command as
  \<^verbatim>\<open>shlex.split(action.cmd) + self.action_args\<close> for every action.  In the project
  above \<^verbatim>\<open>api.start\<close> does not accept extra arguments, the warning announces that
  one of the two actions receives them, and yet \<^verbatim>\<open>bpm start -- --verbose\<close> runs
  \<^verbatim>\<open>uvicorn app --verbose\<close>, in the sequential branch and (with both actions
  backgroundable) in the concurrent branch.
\<close>

theorem C1_extra_args_reach_every_action:
  "args api_start = Some False \<and> args api_start_bg = Some False
   \<and> main ex_world None 5 ex_config ns_start_verbose =
       Some ([Print_warn (ArgsPartlyIgnored ''start'' 1 2 1),
              Print_info RunningInSeries,
              Print_blank, Print_info (RunningAction api_start),
              Subprocess_run [''uvicorn'', ''app'', ''--verbose''] (Path Root1 [''repo'', ''api'']),
              Print_info (Completed api_start 0),
              Print_blank, Print_info (RunningAction web_start),
              Subprocess_run [''npm'', ''start'', ''--verbose''] (Path Root1 [''repo'', ''web'']),
              Print_info (Completed web_start 0),
              Print_blank, Print_info AllProcessesCompleted],
             Normal, [])
   \<and> main ex_world None 5 ex_config_bg ns_start_verbose =
       Some ([Print_warn (ArgsPartlyIgnored ''start'' 1 2 1),
              Print_info RunningSimultaneously,
              Print_info (RunningAction api_start_bg),
              Popen [''uvicorn'', ''app'', ''--verbose''] (Path Root1 [''repo'', ''api'']),
              Print_info (RunningAction web_start),
              Popen [''npm'', ''start'', ''--verbose''] (Path Root1 [''repo'', ''web'']),
              Sleep, Sleep,
              Print_info (Completed api_start_bg 0),
              Print_info (Completed web_start 0),
              Print_blank, Print_info AllActionsCompleted],
             Normal, [])"
proof (intro conjI)
  show "args api_start = Some False"
    by (simp add: api_start_def)
  show "args api_start_bg = Some False"
    by (simp add: api_start_bg_def api_start_def)
  show "main ex_world None 5 ex_config ns_start_verbose =
       Some ([Print_warn (ArgsPartlyIgnored ''start'' 1 2 1),
              Print_info RunningInSeries,
              Print_blank, Print_info (RunningAction api_start),
              Subprocess_run [''uvicorn'', ''app'', ''--verbose''] (Path Root1 [''repo'', ''api'']),
              Print_info (Completed api_start 0),
              Print_blank, Print_info (RunningAction web_start),
              Subprocess_run [''npm'', ''start'', ''--verbose''] (Path Root1 [''repo'', ''web'']),
              Print_info (Completed web_start 0),
              Print_blank, Print_info AllProcessesCompleted],
             Normal, [])"
    by code_simp
  show "main ex_world None 5 ex_config_bg ns_start_verbose =
       Some ([Print_warn (ArgsPartlyIgnored ''start'' 1 2 1),
              Print_info RunningSimultaneously,
              Print_info (RunningAction api_start_bg),
              Popen [''uvicorn'', ''app'', ''--verbose''] (Path Root1 [''repo'', ''api'']),
              Print_info (RunningAction web_start),
              Popen [''npm'', ''start'', ''--verbose''] (Path Root1 [''repo'', ''web'']),
              Sleep, Sleep,
              Print_info (Completed api_start_bg 0),
              Print_info (Completed web_start 0),
              Print_blank, Print_info AllActionsCompleted],
             Normal, [])"
    by code_simp
qed

text \<open>
  Claim C8.  The claim does not hold on the spawn-failure path of the concurrent
  branch: \<^verbatim>\<open>logger.error(..., exiting=True)\<close> leaves \<^verbatim>\<open>run\<close> through
  \<^verbatim>\<open>SystemExit\<close>, which the handler for \<^verbatim>\<open>KeyboardInterrupt\<close> does not catch.
  Where \<^verbatim>\<open>npm\<close> is missing, \<^verbatim>\<open>bpm start -- --verbose\<close> exits with code 1 while the
  child started for \<^verbatim>\<open>api.start\<close> is still in the live table, and no process has
  been asked to terminate.
\<close>

theorem C8_spawn_failure_leaves_children:
  "main ex_world_no_npm None 5 ex_config_bg ns_start_verbose =
     Some ([Print_warn (ArgsPartlyIgnored ''start'' 1 2 1),
            Print_info RunningSimultaneously,
            Print_info (RunningAction api_start_bg),
            Popen [''uvicorn'', ''app'', ''--verbose''] (Path Root1 [''repo'', ''api'']),
            Print_info (RunningAction web_start),
            Popen [''npm'', ''start'', ''--verbose''] (Path Root1 [''repo'', ''web'']),
            Print_error (SpawnError ''No such file or directory'' ''npm'')],
           SysExit 1, [(api_start_bg, ex_proc 19)])
   \<and> terminated
        [Print_warn (ArgsPartlyIgnored ''start'' 1 2 1),
         Print_info RunningSimultaneously,
         Print_info (RunningAction api_start_bg),
         Popen [''uvicorn'', ''app'', ''--verbose''] (Path Root1 [''repo'', ''api'']),
         Print_info (RunningAction web_start),
         Popen [''npm'', ''start'', ''--verbose''] (Path Root1 [''repo'', ''web'']),
         Print_error (SpawnError ''No such file or directory'' ''npm'')] = []"
proof (intro conjI)
  show "main ex_world_no_npm None 5 ex_config_bg ns_start_verbose =
     Some ([Print_warn (ArgsPartlyIgnored ''start'' 1 2 1),
            Print_info RunningSimultaneously,
            Print_info (RunningAction api_start_bg),
            Popen [''uvicorn'', ''app'', ''--verbose''] (Path Root1 [''repo'', ''api'']),
            Print_info (RunningAction web_start),
            Popen [''npm'', ''start'', ''--verbose''] (Path Root1 [''repo'', ''web'']),
            Print_error (SpawnError ''No such file or directory'' ''npm'')],
           SysExit 1, [(api_start_bg, ex_proc 19)])"
    by code_simp
  show "terminated
        [Print_warn (ArgsPartlyIgnored ''start'' 1 2 1),
         Print_info RunningSimultaneously,
         Print_info (RunningAction api_start_bg),
         Popen [''uvicorn'', ''app'', ''--verbose''] (Path Root1 [''repo'', ''api'']),
         Print_info (RunningAction web_start),
         Popen [''npm'', ''start'', ''--verbose''] (Path Root1 [''repo'', ''web'']),
         Print_error (SpawnError ''No such file or directory'' ''npm'')] = []"
    by simp
qed

section \<open>Working directories of loaded actions\<close>

lemma split_sep_nonempty: "split_sep s \<noteq> []"
  by (induction s) (auto split: list.splits)

lemma split_sep_parts_no_slash: "x \<in> set (split_sep s) \<Longrightarrow> CHR ''/'' \<notin> set x"
proof (induction s arbitrary: x)
  case Nil
  then show ?case by simp
next
  case (Cons c s)
  show ?case
  proof (cases "c = CHR ''/''")
    case True
    with Cons show ?thesis by auto
  next
    case False
    obtain w ws where sp: "split_sep s = w # ws"
      using split_sep_nonempty [of s] by (cases "split_sep s") auto
    with Cons.prems False have "x = c # w \<or> x \<in> set ws" by auto
    with Cons.IH sp False show ?thesis by auto
  qed
qed

lemma valid_Path_of: "valid_path (Path_of s)"
  by (auto simp: valid_path_def Path_of_def valid_part_def list_all_iff
      dest: split_sep_parts_no_slash split: prod.splits)

lemma split_sep_no_slash: "CHR ''/'' \<notin> set x \<Longrightarrow> split_sep x = [x]"
  by (induction x) auto

lemma split_sep_append: "CHR ''/'' \<notin> set x \<Longrightarrow> split_sep (x @ CHR ''/'' # ys) = x # split_sep ys"
  by (induction x) auto

lemma split_join:
  "list_all valid_part t \<Longrightarrow> t \<noteq> [] \<Longrightarrow> split_sep (join_sep t) = t"
proof (induction t rule: join_sep.induct)
  case 1
  then show ?case by simp
next
  case (2 x)
  then show ?case by (simp add: valid_part_def split_sep_no_slash)
next
  case (3 x y ys)
  then show ?case by (simp add: valid_part_def split_sep_append)
qed

lemma filter_valid:
  "list_all valid_part t \<Longrightarrow> filter (\<lambda>x. x \<noteq> [] \<and> x \<noteq> ''.'') t = t"
  by (induction t) (auto simp: valid_part_def)

lemma join_sep_head:
  "list_all valid_part t \<Longrightarrow> take 1 (join_sep t) \<noteq> ''/''"
proof (cases t rule: join_sep.cases)
  case 1
  then show ?thesis by simp
next
  case (2 x)
  assume "list_all valid_part t"
  with 2 show ?thesis by (cases x) (auto simp: valid_part_def)
next
  case (3 x y ys)
  assume "list_all valid_part t"
  with 3 show ?thesis by (cases x) (auto simp: valid_part_def)
qed

lemma join_sep_empty: "list_all valid_part t \<Longrightarrow> (join_sep t = []) = (t = [])"
  by (cases t rule: join_sep.cases) (auto simp: valid_part_def)

lemma parts_of_join:
  "list_all valid_part t \<Longrightarrow>
   filter (\<lambda>x. x \<noteq> [] \<and> x \<noteq> ''.'') (split_sep (join_sep t)) = t"
  by (cases "t = []") (simp_all add: split_join filter_valid)

lemma Path_of_relative: "take 1 s \<noteq> ''/'' \<Longrightarrow> root_of (Path_of s) = Rel"
  by (simp add: Path_of_def splitroot_def)

lemma Path_of_str_of:
  assumes "valid_path p"
  shows "Path_of (str_of p) = p"
proof -
  obtain r t where p: "p = Path r t" by (cases p)
  with assms have v: "list_all valid_part t" by (simp add: valid_path_def)
  note h = join_sep_head [OF v] and pj = parts_of_join [OF v] and je = join_sep_empty [OF v]
  show ?thesis
  proof (cases r)
    case Rel
    show ?thesis
    proof (cases "t = []")
      case True
      with p Rel show ?thesis by (simp add: str_of_def Path_of_def splitroot_def)
    next
      case False
      with je have "join_sep t \<noteq> []" by simp
      with p Rel h pj show ?thesis by (simp add: str_of_def Path_of_def splitroot_def)
    qed
  next
    case Root1
    with p h pj show ?thesis by (simp add: str_of_def Path_of_def splitroot_def)
  next
    case Root2
    with p h pj show ?thesis by (simp add: str_of_def Path_of_def splitroot_def)
  qed
qed

lemma rootless_is_relative:
  assumes "valid_path sp" and "root_of sp \<noteq> Root2" and "str_of sp = c # cs"
  shows "root_of (Path_of (if c = CHR ''/'' then cs else c # cs)) = Rel"
proof -
  obtain r t where p: "sp = Path r t" by (cases sp)
  with assms have v: "list_all valid_part t" by (simp add: valid_path_def)
  note h = join_sep_head [OF v]
  show ?thesis
  proof (cases r)
    case Rel
    show ?thesis
    proof (cases "join_sep t = []")
      case True
      with p Rel assms(3) show ?thesis
        by (auto simp: str_of_def Path_of_def splitroot_def)
    next
      case False
      with p Rel assms(3) have "join_sep t = c # cs" by (simp add: str_of_def)
      with h have "c \<noteq> CHR ''/''" by auto
      then show ?thesis by (simp add: Path_of_relative)
    qed
  next
    case Root1
    with p assms(3) have "c = CHR ''/''" and "cs = join_sep t" by (simp_all add: str_of_def)
    with h show ?thesis by (simp add: Path_of_relative)
  next
    case Root2
    with p assms(2) show ?thesis by simp
  qed
qed

lemma joinpath_relative:
  "root_of (Path_of s) = Rel \<Longrightarrow> joinpath p s = Path (root_of p) (tail_of p @ tail_of (Path_of s))"
  by (cases "Path_of s") (simp add: joinpath_def)

lemma rebase_path_rooted:
  assumes "rebase_path root w = Inr p" and "root_of (Path_of w) \<noteq> Root2"
  shows "is_relative_to p root"
proof (cases "is_relative_to (Path_of w) root")
  case True
  with assms show ?thesis by (simp add: rebase_path_def)
next
  case False
  with assms(1) obtain c cs where s: "str_of (Path_of w) = c # cs"
    and p: "p = joinpath root (if c = CHR ''/'' then cs else c # cs)"
    by (auto simp: rebase_path_def Let_def split: list.splits)
  from rootless_is_relative [OF valid_Path_of assms(2) s]
  have "root_of (Path_of (if c = CHR ''/'' then cs else c # cs)) = Rel" .
  from joinpath_relative [OF this] p show ?thesis by (simp add: is_relative_to_def)
qed

lemma is_relative_to_absolute:
  "is_relative_to p root \<Longrightarrow> is_absolute root \<Longrightarrow> is_absolute p"
  by (simp add: is_relative_to_def is_absolute_def)

lemma rebase_path_valid:
  assumes "rebase_path root w = Inr p" and "valid_path root"
  shows "valid_path p"
proof (cases "is_relative_to (Path_of w) root")
  case True
  with assms show ?thesis by (auto simp: rebase_path_def valid_Path_of)
next
  case False
  with assms(1) obtain s where p: "p = joinpath root s"
    by (auto simp: rebase_path_def Let_def split: list.splits)
  have "valid_path (Path_of s)" by (rule valid_Path_of)
  with assms(2) p show ?thesis
    by (cases "Path_of s"; cases "root_of (Path_of s)")
      (auto simp: joinpath_def valid_path_def)
qed

lemma prepare_action_result:
  assumes "prepare_action root mname mod_wd kra = Inr ka"
  shows "fst ka = fst kra
       \<and> (case ra_work_dir (snd kra) of
            None \<Rightarrow> work_dir (snd ka) = Path_of mod_wd
          | Some w \<Rightarrow> if w = [] then work_dir (snd ka) = Path_of mod_wd
                      else rebase_path root w = Inr (work_dir (snd ka)))"
proof -
  obtain k ra where kra: "kra = (k, ra)" by (cases kra)
  show ?thesis
  proof (cases "ra_work_dir ra")
    case None
    with assms kra show ?thesis by (auto simp: prepare_action_def)
  next
    case (Some w)
    with assms kra show ?thesis
      by (cases "w = []") (auto simp: prepare_action_def split: sum.splits)
  qed
qed

lemma prepare_actions_result:
  "prepare_actions root mname mod_wd ras = Inr acts \<Longrightarrow>
   list_all2 (\<lambda>kra ka. prepare_action root mname mod_wd kra = Inr ka) ras acts"
proof (induction ras arbitrary: acts)
  case Nil
  then show ?case by simp
next
  case (Cons kra ras)
  from Cons.prems obtain ka rest where
    1: "prepare_action root mname mod_wd kra = Inr ka"
    and 2: "prepare_actions root mname mod_wd ras = Inr rest"
    and 3: "acts = ka # rest"
    by (auto split: sum.splits)
  from Cons.IH [OF 2] 1 3 show ?case by simp
qed

lemma Module_validate_result:
  assumes "Module_validate e mname data = Inr m"
  shows "\<exists>root p. get_git_repo_root e = Inr root
           \<and> rebase_path root (rm_work_dir data) = Inr p
           \<and> prepare_actions root mname (str_of p) (rm_actions data) = Inr (m_actions m)
           \<and> m_work_dir m = Path_of (str_of p)
           \<and> path_exists e (m_work_dir m)"
proof -
  from assms obtain root where root: "get_git_repo_root e = Inr root"
    by (cases "get_git_repo_root e")
      (auto simp: Module_validate_def rebase_workdir_onto_git_repo_root_def)
  from assms root obtain p where p: "rebase_path root (rm_work_dir data) = Inr p"
    by (cases "rebase_path root (rm_work_dir data)")
      (auto simp: Module_validate_def rebase_workdir_onto_git_repo_root_def)
  from assms root p obtain acts where
    acts: "prepare_actions root mname (str_of p) (rm_actions data) = Inr acts"
    by (cases "prepare_actions root mname (str_of p) (rm_actions data)")
      (auto simp: Module_validate_def rebase_workdir_onto_git_repo_root_def
        set_additional_action_fields_def)
  from assms root p acts have
    "assert_workdir_exists e
       \<lparr>m_name = mname, m_work_dir = Path_of (str_of p), m_actions = acts\<rparr> = Inr m"
    by (simp add: Module_validate_def rebase_workdir_onto_git_repo_root_def
        set_additional_action_fields_def)
  then have "m = \<lparr>m_name = mname, m_work_dir = Path_of (str_of p), m_actions = acts\<rparr>
      \<and> path_exists e (Path_of (str_of p))"
    by (auto simp: assert_workdir_exists_def split: if_splits sum.splits)
  with root p acts show ?thesis by auto
qed

lemma Module_validate_missing_dir:
  assumes "get_git_repo_root e = Inr root"
    and "rebase_path root (rm_work_dir data) = Inr p"
    and "\<not> path_exists e (Path_of (str_of p))"
  shows "\<exists>x. Module_validate e mname data = Inl x"
proof (cases "Module_validate e mname data")
  case (Inl x)
  then show ?thesis by simp
next
  case (Inr m)
  from Module_validate_result [OF Inr] assms show ?thesis by auto
qed

lemma validate_modules_result:
  "validate_modules e raw = Inr ms \<Longrightarrow>
   list_all2 (\<lambda>kd km. fst km = fst kd \<and> Module_validate e (fst kd) (snd kd) = Inr (snd km)) raw ms"
proof (induction raw arbitrary: ms)
  case Nil
  then show ?case by simp
next
  case (Cons kd raw)
  obtain k d where kd: "kd = (k, d)" by (cases kd)
  from Cons.prems kd obtain m rest where
    1: "Module_validate e k d = Inr m"
    and 2: "validate_modules e raw = Inr rest"
    and 3: "ms = (k, m) # rest"
    by (auto split: sum.splits)
  from Cons.IH [OF 2] 1 3 kd show ?case by simp
qed

lemma module_dirs:
  assumes "Module_validate e mname data = Inr m"
    and "get_git_repo_root e = Inr root"
    and "is_absolute root"
  shows "path_exists e (m_work_dir m)
       \<and> (root_of (Path_of (rm_work_dir data)) \<noteq> Root2 \<longrightarrow>
            is_relative_to (m_work_dir m) root \<and> is_absolute (m_work_dir m))
       \<and> list_all2 (\<lambda>kra ka. fst ka = fst kra \<and>
            (case ra_work_dir (snd kra) of
               None \<Rightarrow> work_dir (snd ka) = m_work_dir m
             | Some w \<Rightarrow>
                 if w = [] then work_dir (snd ka) = m_work_dir m
                 else root_of (Path_of w) \<noteq> Root2 \<longrightarrow>
                        is_relative_to (work_dir (snd ka)) root \<and> is_absolute (work_dir (snd ka))))
          (rm_actions data) (m_actions m)"
proof -
  from Module_validate_result [OF assms(1)] assms(2) obtain p where
    p: "rebase_path root (rm_work_dir data) = Inr p"
    and acts: "prepare_actions root mname (str_of p) (rm_actions data) = Inr (m_actions m)"
    and wd: "m_work_dir m = Path_of (str_of p)"
    and ex: "path_exists e (m_work_dir m)"
    by auto
  from assms(2) have vroot: "valid_path root"
    by (auto simp: get_git_repo_root_def valid_Path_of split: option.splits)
  from rebase_path_valid [OF p vroot] wd have wd': "m_work_dir m = p"
    by (simp add: Path_of_str_of)
  have mod: "root_of (Path_of (rm_work_dir data)) \<noteq> Root2 \<longrightarrow>
            is_relative_to (m_work_dir m) root \<and> is_absolute (m_work_dir m)"
    using rebase_path_rooted [OF p] is_relative_to_absolute [OF _ assms(3)] wd' by auto
  have each: "fst ka = fst kra \<and>
            (case ra_work_dir (snd kra) of
               None \<Rightarrow> work_dir (snd ka) = m_work_dir m
             | Some w \<Rightarrow>
                 if w = [] then work_dir (snd ka) = m_work_dir m
                 else root_of (Path_of w) \<noteq> Root2 \<longrightarrow>
                        is_relative_to (work_dir (snd ka)) root \<and> is_absolute (work_dir (snd ka)))"
    if "prepare_action root mname (str_of p) kra = Inr ka" for kra ka
    using prepare_action_result [OF that] wd rebase_path_rooted [of root _ "work_dir (snd ka)"]
      is_relative_to_absolute [OF _ assms(3), of "work_dir (snd ka)"]
    by (auto split: option.splits)
  from prepare_actions_result [OF acts] each
  have "list_all2 (\<lambda>kra ka. fst ka = fst kra \<and>
            (case ra_work_dir (snd kra) of
               None \<Rightarrow> work_dir (snd ka) = m_work_dir m
             | Some w \<Rightarrow>
                 if w = [] then work_dir (snd ka) = m_work_dir m
                 else root_of (Path_of w) \<noteq> Root2 \<longrightarrow>
                        is_relative_to (work_dir (snd ka)) root \<and> is_absolute (work_dir (snd ka))))
          (rm_actions data) (m_actions m)"
    by (rule list_all2_mono)
  with ex mod show ?thesis by simp
qed

text \<open>
  What loading does establish.  After a successful load, with the repository root
  absolute: every module's directory exists, and construction of a module fails whenever
  its rebased directory does not exist.  An action that names no directory of its own has
  exactly its module's directory.  A directory that does not start with exactly two
  slashes (the module's, or an action's own) is rebased to an absolute path whose
  components begin with those of the repository root.  This is a lexical statement, as
  \<^verbatim>\<open>relative_to\<close> is: components \<^verbatim>\<open>..\<close> are kept as they are, so the directory
  named may still lie outside the repository.
\<close>

lemma loaded_work_dirs:
  assumes "BPMConfig_validate e raw = Inr config"
    and "get_git_repo_root e = Inr root"
    and "is_absolute root"
  shows "list_all2 (\<lambda>kd km. fst km = fst kd
            \<and> path_exists e (m_work_dir (snd km))
            \<and> (root_of (Path_of (rm_work_dir (snd kd))) \<noteq> Root2 \<longrightarrow>
                 is_relative_to (m_work_dir (snd km)) root \<and> is_absolute (m_work_dir (snd km)))
            \<and> list_all2 (\<lambda>kra ka. fst ka = fst kra \<and>
                 (case ra_work_dir (snd kra) of
                    None \<Rightarrow> work_dir (snd ka) = m_work_dir (snd km)
                  | Some w \<Rightarrow>
                      if w = [] then work_dir (snd ka) = m_work_dir (snd km)
                      else root_of (Path_of w) \<noteq> Root2 \<longrightarrow>
                             is_relative_to (work_dir (snd ka)) root
                             \<and> is_absolute (work_dir (snd ka))))
               (rm_actions (snd kd)) (m_actions (snd km)))
          raw (modules config)
       \<and> (\<forall>mname data p.
            rebase_path root (rm_work_dir data) = Inr p \<and> \<not> path_exists e (Path_of (str_of p)) \<longrightarrow>
            (\<exists>x. Module_validate e mname data = Inl x))"
proof (rule conjI)
  from assms(1) have "validate_modules e raw = Inr (modules config)"
    by (auto simp: BPMConfig_validate_def split: sum.splits)
  from validate_modules_result [OF this]
  have "list_all2 (\<lambda>kd km. fst km = fst kd \<and> Module_validate e (fst kd) (snd kd) = Inr (snd km))
          raw (modules config)" .
  then show "list_all2 (\<lambda>kd km. fst km = fst kd
            \<and> path_exists e (m_work_dir (snd km))
            \<and> (root_of (Path_of (rm_work_dir (snd kd))) \<noteq> Root2 \<longrightarrow>
                 is_relative_to (m_work_dir (snd km)) root \<and> is_absolute (m_work_dir (snd km)))
            \<and> list_all2 (\<lambda>kra ka. fst ka = fst kra \<and>
                 (case ra_work_dir (snd kra) of
                    None \<Rightarrow> work_dir (snd ka) = m_work_dir (snd km)
                  | Some w \<Rightarrow>
                      if w = [] then work_dir (snd ka) = m_work_dir (snd km)
                      else root_of (Path_of w) \<noteq> Root2 \<longrightarrow>
                             is_relative_to (work_dir (snd ka)) root
                             \<and> is_absolute (work_dir (snd ka))))
               (rm_actions (snd kd)) (m_actions (snd km)))
          raw (modules config)"
  proof (rule list_all2_mono)
    fix kd km
    assume "fst km = fst kd \<and> Module_validate e (fst kd) (snd kd) = Inr (snd km)"
    then have k: "fst km = fst kd" and v: "Module_validate e (fst kd) (snd kd) = Inr (snd km)"
      by simp_all
    from k module_dirs [OF v assms(2,3)]
    show "fst km = fst kd
            \<and> path_exists e (m_work_dir (snd km))
            \<and> (root_of (Path_of (rm_work_dir (snd kd))) \<noteq> Root2 \<longrightarrow>
                 is_relative_to (m_work_dir (snd km)) root \<and> is_absolute (m_work_dir (snd km)))
            \<and> list_all2 (\<lambda>kra ka. fst ka = fst kra \<and>
                 (case ra_work_dir (snd kra) of
                    None \<Rightarrow> work_dir (snd ka) = m_work_dir (snd km)
                  | Some w \<Rightarrow>
                      if w = [] then work_dir (snd ka) = m_work_dir (snd km)
                      else root_of (Path_of w) \<noteq> Root2 \<longrightarrow>
                             is_relative_to (work_dir (snd ka)) root
                             \<and> is_absolute (work_dir (snd ka))))
               (rm_actions (snd kd)) (m_actions (snd km))"
      by simp
  qed
next
  show "\<forall>mname data p.
            rebase_path root (rm_work_dir data) = Inr p \<and> \<not> path_exists e (Path_of (str_of p)) \<longrightarrow>
            (\<exists>x. Module_validate e mname data = Inl x)"
    using Module_validate_missing_dir [OF assms(2)] by blast
qed

lemma loaded_work_dirs_example:
  "BPMConfig_validate ex_env ex_raw = Inr ex_loaded
   \<and> get_git_repo_root ex_env = Inr ex_root
   \<and> is_absolute ex_root
   \<and> path_exists ex_env (Path Root1 [''repo'', ''api''])
   \<and> is_relative_to (Path Root1 [''repo'', ''missing'']) ex_root
   \<and> work_dir api_build = Path Root1 [''repo'', ''api'']
   \<and> (\<exists>x. Module_validate ex_env ''web'' (snd (hd ex_raw_absent)) = Inl x)"
proof -
  have h1: "BPMConfig_validate ex_env ex_raw = Inr ex_loaded" by code_simp
  have h2: "get_git_repo_root ex_env = Inr ex_root" by code_simp
  have h3: "is_absolute ex_root" by (simp add: is_absolute_def ex_root_def)
  note t = loaded_work_dirs [OF h1 h2 h3]
  have nd: "root_of (Path_of ''missing'') \<noteq> Root2 \<and> root_of (Path_of ''api'') \<noteq> Root2"
    by (simp add: Path_of_def splitroot_def)
  from t [THEN conjunct1] nd
  have a: "path_exists ex_env (Path Root1 [''repo'', ''api''])
      \<and> is_relative_to (Path Root1 [''repo'', ''missing'']) ex_root
      \<and> work_dir api_build = Path Root1 [''repo'', ''api'']"
    by (simp add: ex_raw_def ex_loaded_def)
  have rb: "rebase_path ex_root (rm_work_dir (snd (hd ex_raw_absent)))
      = Inr (Path Root1 [''repo'', ''web''])"
    by code_simp
  have ne: "\<not> path_exists ex_env (Path_of (str_of (Path Root1 [''repo'', ''web''])))"
    by code_simp
  from t [THEN conjunct2, THEN spec, THEN spec, THEN spec, THEN mp, OF conjI, OF rb ne]
  have b: "\<exists>x. Module_validate ex_env ''web'' (snd (hd ex_raw_absent)) = Inl x" .
  from h1 h2 h3 a b show ?thesis by simp
qed

text \<open>
  Claim C7.  The claim does not hold of the loader.  \<^verbatim>\<open>api.start\<close> names the directory
  \<^verbatim>\<open>missing\<close>, which does not exist; the configuration loads all the same, and the
  action is constructed with that directory.  Only \<^verbatim>\<open>Module.assert_workdir_exists\<close>
  looks at the file system, and it looks at the module's directory alone: the same file
  system refuses a module whose own directory is absent.
\<close>

theorem C7_missing_action_dir_loads:
  "BPMConfig_validate ex_env ex_raw = Inr ex_loaded
   \<and> action_dirs ex_loaded = [Path Root1 [''repo'', ''missing''], Path Root1 [''repo'', ''api'']]
   \<and> \<not> path_exists ex_env (Path Root1 [''repo'', ''missing''])
   \<and> BPMConfig_validate ex_env ex_raw_absent = Inl ValueError"
proof (intro conjI)
  show "BPMConfig_validate ex_env ex_raw = Inr ex_loaded" by code_simp
  show "action_dirs ex_loaded = [Path Root1 [''repo'', ''missing''], Path Root1 [''repo'', ''api'']]"
    by code_simp
  show "\<not> path_exists ex_env (Path Root1 [''repo'', ''missing''])" by code_simp
  show "BPMConfig_validate ex_env ex_raw_absent = Inl ValueError" by code_simp
qed

text \<open>
  A directory written with exactly two leading slashes leaves the repository: stripping
  one slash keeps it rooted, and joining a rooted path discards the left operand.
\<close>

lemma rebase_path_two_slashes:
  "rebase_path ex_root ''//etc'' = Inr (Path Root1 [''etc''])
   \<and> \<not> is_relative_to (Path Root1 [''etc'']) ex_root"
  by code_simp

text \<open>
  A relative directory that climbs with \<^verbatim>\<open>..\<close> is joined as it is: the result begins
  with the components of the root and names a directory outside the repository.
\<close>

lemma rebase_path_dotdot:
  "rebase_path ex_root ''../../etc'' = Inr (Path Root1 [''repo'', ''..'', ''..'', ''etc''])
   \<and> is_relative_to (Path Root1 [''repo'', ''..'', ''..'', ''etc'']) ex_root"
  by code_simp

section \<open>The reader threads and the end of the polling loop\<close>

text \<open>
  A reader whose stream fails before its end prints the error with its prefix, closes
  the stream, and leaves its thread through \<^verbatim>\<open>SystemExit(1)\<close>.  What that exit does
  to the other threads is a matter of the interpreter and is not modelled here.
\<close>

lemma stream_output_failure:
  "stream_output (map Line ls @ ReadFails # rest) prefix =
     (map (Print_line prefix) ls @ [Print_error (StreamError prefix), Close_stream], SysExit 1)"
  by (induction ls) (simp_all add: logger_error_def)

lemma stream_output_eof:
  "stream_output (map Line ls @ Eof # rest) prefix =
     (map (Print_line prefix) ls @ [Close_stream], Normal)"
  by (induction ls) simp_all

text \<open>A polling loop that ends normally has emptied the live table.\<close>

lemma poll_loop_normal_empty:
  "poll_loop fuel intr t ps = Some (evs, Normal, ps') \<Longrightarrow> ps' = []"
proof (induction fuel intr t ps arbitrary: evs rule: poll_loop.induct)
  case (1 fuel intr t)
  then show ?case by simp
next
  case (2 intr t e ps)
  then show ?case by simp
next
  case (3 fuel intr t e ps)
  show ?case
  proof (cases "intr = Some t")
    case True
    with "3.prems" show ?thesis by simp
  next
    case False
    obtain evs1 ps1 where pa: "poll_all (e # ps) (e # ps) = (evs1, ps1)"
      by (cases "poll_all (e # ps) (e # ps)")
    from "3.prems" False pa obtain evs2 where
      "poll_loop fuel intr (Suc t) ps1 = Some (evs2, Normal, ps')"
      by (auto split: option.splits)
    from "3.IH" [OF False pa [symmetric] this] show ?thesis .
  qed
qed

end
